theory Spec2Isabelle
  imports Main "HOL-Library.Multiset" "HOL-Library.Log_Nat"
begin

section \<open>Card codec\<close>

text \<open>
  The hand categories of \<^verbatim>\<open>HAND_RANKS\<close>, numbered from the weakest to the strongest
  as in the source; the evaluator stores the number and the comparison orders by it.
\<close>

definition HIGH_CARD :: nat where "HIGH_CARD = 0"
definition ONE_PAIR :: nat where "ONE_PAIR = 1"
definition TWO_PAIR :: nat where "TWO_PAIR = 2"
definition THREE_OF_A_KIND :: nat where "THREE_OF_A_KIND = 3"
definition STRAIGHT :: nat where "STRAIGHT = 4"
definition FLUSH :: nat where "FLUSH = 5"
definition FULL_HOUSE :: nat where "FULL_HOUSE = 6"
definition FOUR_OF_A_KIND :: nat where "FOUR_OF_A_KIND = 7"
definition STRAIGHT_FLUSH :: nat where "STRAIGHT_FLUSH = 8"
definition ROYAL_FLUSH :: nat where "ROYAL_FLUSH = 9"

lemmas HAND_RANKS =
  HIGH_CARD_def ONE_PAIR_def TWO_PAIR_def THREE_OF_A_KIND_def STRAIGHT_def FLUSH_def
  FULL_HOUSE_def FOUR_OF_A_KIND_def STRAIGHT_FLUSH_def ROYAL_FLUSH_def

text \<open>
  \<^verbatim>\<open>SUIT_MAP\<close> and \<^verbatim>\<open>RANK_MAP\<close> are object literals read with \<^verbatim>\<open>MAP[key]\<close>: a key that
  is not listed reads as \<^verbatim>\<open>undefined\<close>, here \<open>None\<close>.
\<close>

definition SUIT_MAP :: "char \<rightharpoonup> nat" where
  "SUIT_MAP = map_of [(CHR ''s'', 0), (CHR ''h'', 1), (CHR ''d'', 2), (CHR ''c'', 3)]"

definition RANK_MAP :: "char \<rightharpoonup> nat" where
  "RANK_MAP = map_of
     [(CHR ''2'', 0), (CHR ''3'', 1), (CHR ''4'', 2), (CHR ''5'', 3), (CHR ''6'', 4),
      (CHR ''7'', 5), (CHR ''8'', 6), (CHR ''9'', 7), (CHR ''T'', 8), (CHR ''J'', 9),
      (CHR ''Q'', 10), (CHR ''K'', 11), (CHR ''A'', 12)]"

text \<open>
  Reading index \<open>i\<close> of a JavaScript string or array gives \<^verbatim>\<open>undefined\<close> (\<open>None\<close>)
  when \<open>i\<close> is out of range; nothing is raised.
\<close>

definition elemAt :: "'a list \<Rightarrow> nat \<Rightarrow> 'a option" where
  "elemAt xs i = (if i < length xs then Some (xs ! i) else None)"

text \<open>
  The value \<^verbatim>\<open>parseCard\<close> returns is a JavaScript number: the card's code, or \<^verbatim>\<open>NaN\<close>
  (\<open>CodeNaN\<close>)
  when a table lookup gave \<^verbatim>\<open>undefined\<close> (\<^verbatim>\<open>undefined * 13\<close> and \<^verbatim>\<open>n + undefined\<close> are
  both \<^verbatim>\<open>NaN\<close>). The function has no \<^verbatim>\<open>throw\<close>.
\<close>

datatype encoded = Code nat | CodeNaN

definition lookup :: "(char \<rightharpoonup> nat) \<Rightarrow> char option \<Rightarrow> nat option" where
  "lookup table key = (case key of None \<Rightarrow> None | Some c \<Rightarrow> table c)"

definition parseCard :: "string \<Rightarrow> encoded" where
  "parseCard cardStr =
     (let rankStr = elemAt cardStr 0;
          suitStr = elemAt cardStr 1;
          rank = lookup RANK_MAP rankStr;
          suit = lookup SUIT_MAP suitStr
      in case (suit, rank) of
           (Some s, Some r) \<Rightarrow> Code (s * 13 + r)
         | _ \<Rightarrow> CodeNaN)"

definition parseCards :: "string list \<Rightarrow> encoded list" where
  "parseCards cardStrs = map parseCard cardStrs"

definition getRank :: "nat \<Rightarrow> nat" where
  "getRank c = c mod 13"

definition getSuit :: "nat \<Rightarrow> nat" where
  "getSuit c = c div 13"

section \<open>Hand evaluator\<close>

text \<open>
  A JavaScript \<^verbatim>\<open>Map\<close> iterates in the order in which its keys were first set, so it is
  an association list: \<open>mapSet\<close> overwrites the value of a key in place and appends a
  new key at the end.
\<close>

fun mapSet :: "'k \<Rightarrow> 'v \<Rightarrow> ('k \<times> 'v) list \<Rightarrow> ('k \<times> 'v) list" where
  "mapSet k v [] = [(k, v)]"
| "mapSet k v ((k', v') # m) = (if k' = k then (k, v) # m else (k', v') # mapSet k v m)"

definition mapGet :: "('k \<times> 'v) list \<Rightarrow> 'k \<Rightarrow> 'v option" where
  "mapGet m k = map_of m k"

definition orZero :: "nat option \<Rightarrow> nat" where
  "orZero v = (case v of None \<Rightarrow> 0 | Some c \<Rightarrow> c)"

definition countRanks :: "nat list \<Rightarrow> (nat \<times> nat) list" where
  "countRanks cards =
     foldl (\<lambda>rankCounts c.
              let rank = getRank c
              in mapSet rank (orZero (mapGet rankCounts rank) + 1) rankCounts) [] cards"

definition countSuits :: "nat list \<Rightarrow> (nat \<times> nat) list" where
  "countSuits cards =
     foldl (\<lambda>suitCounts c.
              let suit = getSuit c
              in mapSet suit (orZero (mapGet suitCounts suit) + 1) suitCounts) [] cards"

text \<open>
  \<^verbatim>\<open>Array.prototype.sort\<close> with a comparison function is a stable sort: \<open>x\<close> stays before
  \<open>y\<close> unless the comparison is positive. Insertion from the right gives that order.
\<close>

fun insertBy :: "('a \<Rightarrow> 'a \<Rightarrow> int) \<Rightarrow> 'a \<Rightarrow> 'a list \<Rightarrow> 'a list" where
  "insertBy cmp x [] = [x]"
| "insertBy cmp x (y # ys) = (if cmp x y \<le> 0 then x # y # ys else y # insertBy cmp x ys)"

definition sortBy :: "('a \<Rightarrow> 'a \<Rightarrow> int) \<Rightarrow> 'a list \<Rightarrow> 'a list" where
  "sortBy cmp xs = foldr (insertBy cmp) xs []"

definition ascending :: "nat \<Rightarrow> nat \<Rightarrow> int" where
  "ascending a b = int a - int b"

definition descending :: "nat \<Rightarrow> nat \<Rightarrow> int" where
  "descending a b = int b - int a"

text \<open>\<^verbatim>\<open>Array.from(new Set(ranks))\<close>: the distinct elements in the order of their first occurrence.\<close>

definition fromSet :: "'a list \<Rightarrow> 'a list" where
  "fromSet xs = foldl (\<lambda>s x. if x \<in> set s then s else s @ [x]) [] xs"

text \<open>
  The inner loop of \<^verbatim>\<open>isStraight\<close> (\<open>j\<close> from 1 to 4) and its outer loop over the start
  index \<open>i\<close>, which runs while \<^verbatim>\<open>i <= uniqueRanks.length - 5\<close>; every read is in range there.
\<close>

function consecutiveFrom :: "nat list \<Rightarrow> nat \<Rightarrow> nat \<Rightarrow> bool" where
  "consecutiveFrom uniqueRanks i j =
     (if j < 5
      then (if uniqueRanks ! (i + j) \<noteq> uniqueRanks ! i + j then False
            else consecutiveFrom uniqueRanks i (j + 1))
      else True)"
  by pat_completeness auto
termination
  by (relation "measure (\<lambda>(u, i, j). 5 - j)") auto

function straightLoop :: "nat list \<Rightarrow> nat \<Rightarrow> bool" where
  "straightLoop uniqueRanks i =
     (if int i \<le> int (length uniqueRanks) - 5
      then (if consecutiveFrom uniqueRanks i 1 then True
            else straightLoop uniqueRanks (i + 1))
      else False)"
  by pat_completeness auto
termination
  by (relation "measure (\<lambda>(u, i). length u - i)") auto

definition isStraight :: "nat list \<Rightarrow> bool" where
  "isStraight ranks =
     (let uniqueRanks = sortBy ascending (fromSet ranks)
      in if 12 \<in> set uniqueRanks \<and> 0 \<in> set uniqueRanks \<and> 1 \<in> set uniqueRanks \<and>
            2 \<in> set uniqueRanks \<and> 3 \<in> set uniqueRanks
         then True
         else straightLoop uniqueRanks 0)"

definition isFlush :: "nat list \<Rightarrow> bool" where
  "isFlush cards = (let suitCounts = countSuits cards in list_ex (\<lambda>count. count \<ge> 5) (map snd suitCounts))"

record handEvaluation =
  rank :: nat
  keyRanks :: "nat list"

text \<open>
  The comparison function of the key sort: by count descending, then by rank descending.
\<close>

definition byCountThenRank :: "nat \<times> nat \<Rightarrow> nat \<times> nat \<Rightarrow> int" where
  "byCountThenRank a b =
     (if snd b \<noteq> snd a then int (snd b) - int (snd a) else int (fst b) - int (fst a))"

definition evaluateHand :: "nat list \<Rightarrow> handEvaluation" where
  "evaluateHand cards =
     (let ranks = map getRank cards;
          rankCounts = countRanks cards;
          flush = isFlush cards;
          straight = isStraight ranks;
          sortedCounts = sortBy descending (map snd rankCounts);
          handRank =
            (if flush \<and> straight then
               (let hasTen = 8 \<in> set ranks;
                    hasJack = 9 \<in> set ranks;
                    hasQueen = 10 \<in> set ranks;
                    hasKing = 11 \<in> set ranks;
                    hasAce = 12 \<in> set ranks
                in if hasTen \<and> hasJack \<and> hasQueen \<and> hasKing \<and> hasAce
                   then ROYAL_FLUSH else STRAIGHT_FLUSH)
             else if elemAt sortedCounts 0 = Some 4 then FOUR_OF_A_KIND
             else if elemAt sortedCounts 0 = Some 3 \<and> elemAt sortedCounts 1 = Some 2 then FULL_HOUSE
             else if flush then FLUSH
             else if straight then STRAIGHT
             else if elemAt sortedCounts 0 = Some 3 then THREE_OF_A_KIND
             else if elemAt sortedCounts 0 = Some 2 \<and> elemAt sortedCounts 1 = Some 2 then TWO_PAIR
             else if elemAt sortedCounts 0 = Some 2 then ONE_PAIR
             else HIGH_CARD);
          keyRanks = map fst (sortBy byCountThenRank rankCounts)
      in \<lparr>rank = handRank, keyRanks = keyRanks\<rparr>)"

text \<open>
  \<^verbatim>\<open>compareHands\<close>: 1 when the first hand wins, -1 when the second wins, 0 otherwise.
  The loop runs over the indices of the first key only; where the second key is shorter,
  \<^verbatim>\<open>hand2.keyRanks[i]\<close> is \<^verbatim>\<open>undefined\<close> and both of its comparisons with a number are false.
\<close>

definition jsGreater :: "nat option \<Rightarrow> nat option \<Rightarrow> bool" where
  "jsGreater a b = (case (a, b) of (Some x, Some y) \<Rightarrow> x > y | _ \<Rightarrow> False)"

definition jsLess :: "nat option \<Rightarrow> nat option \<Rightarrow> bool" where
  "jsLess a b = (case (a, b) of (Some x, Some y) \<Rightarrow> x < y | _ \<Rightarrow> False)"

function compareKeys :: "nat list \<Rightarrow> nat list \<Rightarrow> nat \<Rightarrow> int" where
  "compareKeys keys1 keys2 i =
     (if i < length keys1
      then (if jsGreater (elemAt keys1 i) (elemAt keys2 i) then 1
            else if jsLess (elemAt keys1 i) (elemAt keys2 i) then -1
            else compareKeys keys1 keys2 (i + 1))
      else 0)"
  by pat_completeness auto
termination
  by (relation "measure (\<lambda>(k1, k2, i). length k1 - i)") auto

definition compareHands :: "handEvaluation \<Rightarrow> handEvaluation \<Rightarrow> int" where
  "compareHands hand1 hand2 =
     (if rank hand1 > rank hand2 then 1
      else if rank hand1 < rank hand2 then -1
      else compareKeys (keyRanks hand1) (keyRanks hand2) 0)"

section \<open>Simulation engine\<close>

subsection \<open>Numbers\<close>

text \<open>
  The percentages are JavaScript numbers, that is binary64 values: a rational that the
  format represents, \<^verbatim>\<open>NaN\<close>, or an infinity. The two zeros are one value here; they are
  equal for \<^verbatim>\<open>===\<close> and print alike after \<^verbatim>\<open>parseFloat\<close>.
\<close>

datatype number = Finite rat | NaN | Infinity | NegInfinity

definition pow2 :: "int \<Rightarrow> rat" where
  "pow2 e = (if e \<ge> 0 then 2 ^ nat e else 1 / 2 ^ nat (- e))"

text \<open>The binary exponent of a positive rational \<open>a\<close>: the \<open>e\<close> with \<open>2 ^ e \<le> a < 2 ^ (e + 1)\<close>.\<close>

definition ilog2 :: "rat \<Rightarrow> int" where
  "ilog2 a =
     (let (p, q) = quotient_of a;
          d = bitlen p - bitlen q
      in if pow2 d \<le> a then d else d - 1)"

definition roundEven :: "rat \<Rightarrow> int" where
  "roundEven x =
     (let f = \<lfloor>x\<rfloor>; r = x - of_int f
      in if r < 1 / 2 then f
         else if r > 1 / 2 then f + 1
         else if even f then f else f + 1)"

text \<open>
  Rounding of an exact result to binary64, to nearest with ties to even: 53 significant
  bits \<open>m\<close> at the exponent \<open>e\<close> of the value, the exponent not below -1022 (subnormal
  numbers), and an infinity when the rounded value reaches \<open>2 ^ 1024\<close>, that is when
  \<open>e\<close> exceeds 1023 or rounding at \<open>e = 1023\<close> carries to \<open>m = 2 ^ 53\<close>.
\<close>

definition binary64 :: "rat \<Rightarrow> number" where
  "binary64 x =
     (if x = 0 then Finite 0
      else let a = \<bar>x\<bar>;
               e = max (ilog2 a) (- 1022);
               ulp = pow2 (e - 52);
               m = roundEven (a / ulp)
           in if e > 1023 \<or> (e = 1023 \<and> m = 2 ^ 53)
              then (if x > 0 then Infinity else NegInfinity)
              else Finite (if x > 0 then of_int m * ulp else - (of_int m * ulp)))"

text \<open>
  \<^verbatim>\<open>wins / simulations\<close>: an integer counter divided by the integer \<^verbatim>\<open>simulations\<close>;
  \<^verbatim>\<open>0 / 0\<close> is \<^verbatim>\<open>NaN\<close>, and a non-zero counter divided by zero is an infinity.
\<close>

definition jsDivide :: "nat \<Rightarrow> int \<Rightarrow> number" where
  "jsDivide counter simulations =
     (if simulations = 0 then (if counter = 0 then NaN else Infinity)
      else binary64 (of_nat counter / of_int simulations))"

fun jsTimes :: "number \<Rightarrow> rat \<Rightarrow> number" where
  "jsTimes (Finite x) k = binary64 (x * k)"
| "jsTimes NaN k = NaN"
| "jsTimes Infinity k = (if k > 0 then Infinity else if k < 0 then NegInfinity else NaN)"
| "jsTimes NegInfinity k = (if k > 0 then NegInfinity else if k < 0 then Infinity else NaN)"

fun jsMinus :: "number \<Rightarrow> number \<Rightarrow> number" where
  "jsMinus (Finite x) (Finite y) = binary64 (x - y)"
| "jsMinus NaN _ = NaN"
| "jsMinus _ NaN = NaN"
| "jsMinus Infinity Infinity = NaN"
| "jsMinus NegInfinity NegInfinity = NaN"
| "jsMinus Infinity _ = Infinity"
| "jsMinus NegInfinity _ = NegInfinity"
| "jsMinus (Finite x) Infinity = NegInfinity"
| "jsMinus (Finite x) NegInfinity = Infinity"

text \<open>
  \<^verbatim>\<open>parseFloat(x.toFixed(2))\<close>. \<^verbatim>\<open>toFixed(2)\<close> prints the integer \<open>n\<close> for which \<open>n / 100\<close>
  is closest to the exact value of \<open>x\<close>, the larger one of two, with the sign in front
  (from 10^21 on it prints \<open>x\<close> itself); \<^verbatim>\<open>parseFloat\<close> reads the decimal back as the
  nearest binary64 value. \<^verbatim>\<open>NaN\<close> and the infinities print and read back as themselves.
\<close>

definition hundredths :: "rat \<Rightarrow> int" where
  "hundredths x = (if x < 0 then - \<lfloor>- x * 100 + 1 / 2\<rfloor> else \<lfloor>x * 100 + 1 / 2\<rfloor>)"

fun toFixed2 :: "number \<Rightarrow> number" where
  "toFixed2 (Finite x) =
     (if \<bar>x\<bar> \<ge> 10 ^ 21 then Finite x else binary64 (of_int (hundredths x) / 100))"
| "toFixed2 NaN = NaN"
| "toFixed2 Infinity = Infinity"
| "toFixed2 NegInfinity = NegInfinity"

subsection \<open>Shuffle\<close>

text \<open>
  What the call can be observed to do besides returning: the number of calls of
  \<^verbatim>\<open>Math.random\<close>, of \<^verbatim>\<open>shuffleArray\<close>, and of executions of the body of the trial loop.
\<close>

record machine =
  randomCalls :: nat
  shuffleCalls :: nat
  trialsRun :: nat

text \<open>
  \<^verbatim>\<open>Math.floor(Math.random() * (i + 1))\<close> is some index from 0 to \<open>i\<close>. The source of
  randomness is a sequence \<open>random\<close> of natural numbers, the call number \<open>k\<close> of
  \<^verbatim>\<open>Math.random\<close> yielding the index \<open>random k mod (i + 1)\<close>.
\<close>

definition swap :: "nat \<Rightarrow> nat \<Rightarrow> 'a list \<Rightarrow> 'a list" where
  "swap i j newArray = (newArray[i := newArray ! j])[j := newArray ! i]"

fun shuffleLoop :: "(nat \<Rightarrow> nat) \<Rightarrow> nat \<Rightarrow> 'a list \<times> machine \<Rightarrow> 'a list \<times> machine" where
  "shuffleLoop random 0 (newArray, m) = (newArray, m)"
| "shuffleLoop random (Suc i') (newArray, m) =
     (let i = Suc i';
          j = random (randomCalls m) mod (i + 1)
      in shuffleLoop random i' (swap i j newArray, m\<lparr>randomCalls := randomCalls m + 1\<rparr>))"

definition shuffleArray :: "(nat \<Rightarrow> nat) \<Rightarrow> 'a list \<Rightarrow> machine \<Rightarrow> 'a list \<times> machine" where
  "shuffleArray random array m =
     shuffleLoop random (length array - 1) (array, m\<lparr>shuffleCalls := shuffleCalls m + 1\<rparr>)"

subsection \<open>One trial\<close>

text \<open>
  The loop that deals two cards to each opponent from the front of the shuffled deck.
  The deck holds at least 45 cards and at most 16 are dealt, so every read is in range.
\<close>

function dealLoop :: "nat list \<Rightarrow> int \<Rightarrow> nat \<Rightarrow> nat list list \<times> nat \<Rightarrow> nat list list \<times> nat" where
  "dealLoop shuffledDeck opponentCount j (opponentsCards, cardIndex) =
     (if int j < opponentCount
      then dealLoop shuffledDeck opponentCount (j + 1)
             (opponentsCards @ [[shuffledDeck ! cardIndex, shuffledDeck ! (cardIndex + 1)]],
              cardIndex + 2)
      else (opponentsCards, cardIndex))"
  by pat_completeness auto
termination
  by (relation "measure (\<lambda>(d, n, j, s). nat n - j)") auto

text \<open>\<^verbatim>\<open>array.slice(start, end)\<close> for \<open>0 \<le> start \<le> end\<close>; it stops at the end of the array.\<close>

definition slice :: "'a list \<Rightarrow> nat \<Rightarrow> nat \<Rightarrow> 'a list" where
  "slice array start end = take (end - start) (drop start array)"

text \<open>
  The loop over the opponents, with its two flags. \<^verbatim>\<open>break\<close> on the first opponent
  that beats the subject leaves the loop with the flags as they are then.
\<close>

fun compareOpponents ::
  "handEvaluation \<Rightarrow> nat list \<Rightarrow> nat list list \<Rightarrow> bool \<times> bool \<Rightarrow> bool \<times> bool" where
  "compareOpponents myBestHand finalCommunityCards [] (isWinner, hasTie) = (isWinner, hasTie)"
| "compareOpponents myBestHand finalCommunityCards (opponentHoleCards # rest) (isWinner, hasTie) =
     (let opponentFinalHand = opponentHoleCards @ finalCommunityCards;
          opponentBestHand = evaluateHand opponentFinalHand;
          comparison = compareHands myBestHand opponentBestHand
      in if comparison < 0 then (False, hasTie)
         else if comparison = 0
           then compareOpponents myBestHand finalCommunityCards rest (isWinner, True)
         else compareOpponents myBestHand finalCommunityCards rest (isWinner, hasTie))"

record counters =
  wins :: nat
  ties :: nat

definition updateCounters :: "bool \<times> bool \<Rightarrow> counters \<Rightarrow> counters" where
  "updateCounters flags c =
     (case flags of (isWinner, hasTie) \<Rightarrow>
        if isWinner then (if hasTie then c\<lparr>ties := ties c + 1\<rparr> else c\<lparr>wins := wins c + 1\<rparr>)
        else c)"

definition trial ::
  "(nat \<Rightarrow> nat) \<Rightarrow> nat list \<Rightarrow> nat list \<Rightarrow> nat list \<Rightarrow> int \<Rightarrow> counters \<times> machine
     \<Rightarrow> counters \<times> machine" where
  "trial random myCardsEncoded communityCardsEncoded remainingDeck opponentCount state =
     (case state of (c, m) \<Rightarrow>
      let (shuffledDeck, m') = shuffleArray random remainingDeck m;
          (opponentsCards, cardIndex) = dealLoop shuffledDeck opponentCount 0 ([], 0);
          remainingCommunityCardsNeeded = 5 - length communityCardsEncoded;
          simulatedCommunityCards =
            slice shuffledDeck cardIndex (cardIndex + remainingCommunityCardsNeeded);
          finalCommunityCards = communityCardsEncoded @ simulatedCommunityCards;
          myFinalHand = myCardsEncoded @ finalCommunityCards;
          myBestHand = evaluateHand myFinalHand;
          flags = compareOpponents myBestHand finalCommunityCards opponentsCards (True, False)
      in (updateCounters flags c, m'\<lparr>trialsRun := trialsRun m' + 1\<rparr>))"

subsection \<open>The whole calculation\<close>

function trialLoop ::
  "(nat \<Rightarrow> nat) \<Rightarrow> nat list \<Rightarrow> nat list \<Rightarrow> nat list \<Rightarrow> int \<Rightarrow> int \<Rightarrow> nat
     \<Rightarrow> counters \<times> machine \<Rightarrow> counters \<times> machine" where
  "trialLoop random myCardsEncoded communityCardsEncoded remainingDeck opponentCount
     simulations i state =
     (if int i < simulations
      then trialLoop random myCardsEncoded communityCardsEncoded remainingDeck opponentCount
             simulations (i + 1)
             (trial random myCardsEncoded communityCardsEncoded remainingDeck opponentCount state)
      else state)"
  by pat_completeness auto
termination
  by (relation "measure (\<lambda>(r, my, comm, deck, opp, n, i, s). nat n - i)") auto

text \<open>The returned object; its field \<^verbatim>\<open>simulations\<close> is \<open>resultSimulations\<close> here.\<close>

record result =
  win :: number
  tie :: number
  lose :: number
  resultSimulations :: int

definition aggregate :: "counters \<Rightarrow> int \<Rightarrow> result" where
  "aggregate c simulations =
     (let winPercentage = jsTimes (jsDivide (wins c) simulations) 100;
          tiePercentage = jsTimes (jsDivide (ties c) simulations) 100;
          losePercentage = jsMinus (jsMinus (Finite 100) winPercentage) tiePercentage
      in \<lparr>win = toFixed2 winPercentage,
          tie = toFixed2 tiePercentage,
          lose = toFixed2 losePercentage,
          resultSimulations = simulations\<rparr>)"

text \<open>
  The three \<^verbatim>\<open>throw new Error(...)\<close> of the validation, named by what they reject:
  the number of hole cards, the number of community cards, the number of opponents.
\<close>

datatype error = HoleCardCount | CommunityCardCount | OpponentCount

text \<open>
  A call returns a result, throws, never returns, or depends on the engine.
  The counter \<^verbatim>\<open>i\<close> of the trial loop is a binary64 number: it counts exactly up to
  \<open>2 ^ 53\<close>, where \<^verbatim>\<open>i++\<close> leaves it unchanged, so for \<^verbatim>\<open>simulations\<close> above \<open>2 ^ 53\<close> the
  loop never ends. When a parsed card is \<^verbatim>\<open>NaN\<close> and a trial runs, \<^verbatim>\<open>evaluateHand\<close>
  sorts with a comparison function that returns \<^verbatim>\<open>NaN\<close>, and the language leaves
  that order to the implementation. The first two outcomes say what the call did to the
  machine.
\<close>

datatype outcome =
  Returned result machine | Thrown error machine | NeverReturns | ImplementationDefined

text \<open>
  The deck of 52 codes, and the filter that removes the known cards from it.
  \<^verbatim>\<open>includes\<close> never finds a \<^verbatim>\<open>NaN\<close> among the codes of the deck.
\<close>

definition fullDeck :: "nat list" where
  "fullDeck = [0..<52]"

definition withoutKnown :: "encoded list \<Rightarrow> nat list \<Rightarrow> nat list" where
  "withoutKnown knownCards deck = filter (\<lambda>c. Code c \<notin> set knownCards) deck"

text \<open>The cards that are numbers; the trials run on these.\<close>

definition codes :: "encoded list \<Rightarrow> nat list" where
  "codes cards = concat (map (\<lambda>c. case c of Code n \<Rightarrow> [n] | CodeNaN \<Rightarrow> []) cards)"

definition calculatePokerOdds ::
  "(nat \<Rightarrow> nat) \<Rightarrow> machine \<Rightarrow> string list \<Rightarrow> string list \<Rightarrow> int \<Rightarrow> int \<Rightarrow> outcome" where
  "calculatePokerOdds random m myCards communityCards opponentCount simulations =
     (let myCardsEncoded = parseCards myCards;
          communityCardsEncoded = parseCards communityCards
      in if length myCardsEncoded \<noteq> 2 then Thrown HoleCardCount m
         else if length communityCardsEncoded > 5 then Thrown CommunityCardCount m
         else if opponentCount < 1 \<or> opponentCount > 8 then Thrown OpponentCount m
         else
           let knownCards = myCardsEncoded @ communityCardsEncoded;
               remainingDeck = withoutKnown knownCards fullDeck
           in if 2 ^ 53 < simulations then NeverReturns
              else if 0 < simulations \<and> CodeNaN \<in> set knownCards then ImplementationDefined
              else
                let (c, m') =
                      trialLoop random (codes myCardsEncoded) (codes communityCardsEncoded)
                        remainingDeck opponentCount simulations 0
                        (\<lparr>wins = 0, ties = 0\<rparr>, m)
                in Returned (aggregate c simulations) m')"

section \<open>The evaluator as the specification words it\<close>

text \<open>
  These definitions follow the words of the specification, not the code: the multiplicity
  of a rank and of a suit among the cards, the multiplicities of the ranks present sorted
  descending, the flush test (some suit's count is at least 5), the straight test (five
  consecutive values among the ranks present, or the wheel A, 2, 3, 4, 5), and the category
  by first match in the stated precedence. They are compared with \<open>evaluateHand\<close> below.
\<close>

definition multiplicity :: "nat list \<Rightarrow> nat \<Rightarrow> nat" where
  "multiplicity cards r = count_list (map getRank cards) r"

definition suitCount :: "nat list \<Rightarrow> nat \<Rightarrow> nat" where
  "suitCount cards s = count_list (map getSuit cards) s"

definition multiplicities :: "nat list \<Rightarrow> nat list" where
  "multiplicities cards = rev (sort (map (multiplicity cards) (remdups (map getRank cards))))"

definition hasFlush :: "nat list \<Rightarrow> bool" where
  "hasFlush cards = (\<exists>s \<in> getSuit ` set cards. suitCount cards s \<ge> 5)"

definition hasStraight :: "nat list \<Rightarrow> bool" where
  "hasStraight cards =
     (let present = getRank ` set cards
      in {12, 0, 1, 2, 3} \<subseteq> present \<or> (\<exists>r \<in> present. \<forall>k \<in> {0..<5}. r + k \<in> present))"

definition categoryByPrecedence :: "nat list \<Rightarrow> nat" where
  "categoryByPrecedence cards =
     (if hasFlush cards \<and> hasStraight cards then STRAIGHT_FLUSH
      else if \<exists>r \<in> getRank ` set cards. multiplicity cards r = 4 then FOUR_OF_A_KIND
      else if take 2 (multiplicities cards) = [3, 2] then FULL_HOUSE
      else if hasFlush cards then FLUSH
      else if hasStraight cards then STRAIGHT
      else if take 1 (multiplicities cards) = [3] then THREE_OF_A_KIND
      else if take 2 (multiplicities cards) = [2, 2] then TWO_PAIR
      else if take 1 (multiplicities cards) = [2] then ONE_PAIR
      else HIGH_CARD)"


text \<open>Positions \<open>i\<close> up to \<open>p - 1\<close> of two keys hold the same ranks.\<close>

definition agree :: "nat list \<Rightarrow> nat list \<Rightarrow> nat \<Rightarrow> nat \<Rightarrow> bool" where
  "agree k1 k2 i p \<longleftrightarrow> (\<forall>q. i \<le> q \<and> q < p \<longrightarrow> k1 ! q = k2 ! q)"

text \<open>
  The order of two evaluations as the specification words it: the category first; on
  equal categories the keys element by element until a difference is found or both are
  exhausted. Two evaluations are equal when the categories are equal and both keys are
  exhausted without a difference, that is when they are the same record. A key that is
  exhausted while the other still holds a rank differs from it there and is the smaller
  one, as in the lexicographic order.
\<close>

fun keyLess :: "nat list \<Rightarrow> nat list \<Rightarrow> bool" where
  "keyLess [] [] = False"
| "keyLess [] (y # ys) = True"
| "keyLess (x # xs) [] = False"
| "keyLess (x # xs) (y # ys) = (x < y \<or> (x = y \<and> keyLess xs ys))"

definition evaluationLess :: "handEvaluation \<Rightarrow> handEvaluation \<Rightarrow> bool" where
  "evaluationLess a b \<longleftrightarrow>
     rank a < rank b \<or> (rank a = rank b \<and> keyLess (keyRanks a) (keyRanks b))"

section \<open>Properties of the card codec\<close>

lemma elemAt_simps:
  "elemAt [] i = None" "elemAt (x # xs) 0 = Some x" "elemAt (x # xs) (Suc i) = elemAt xs i"
  by (simp_all add: elemAt_def)

text \<open>
  C7, as amended. For a two-character card string whose rank character is one of
  2..9, T, J, Q, K, A and whose suit character is one of s, h, d, c, \<^verbatim>\<open>parseCard\<close> returns
  the integer suit * 13 + rank, which lies in [0,52). For every other two-character
  string it raises nothing: it returns \<^verbatim>\<open>NaN\<close>.
\<close>

theorem parseCard_two_characters:
  "parseCard [r, s] =
     (if r \<in> set ''23456789TJQKA'' \<and> s \<in> set ''shdc''
      then Code (the (SUIT_MAP s) * 13 + the (RANK_MAP r)) else CodeNaN) \<and>
   (r \<in> set ''23456789TJQKA'' \<and> s \<in> set ''shdc'' \<longrightarrow>
      the (RANK_MAP r) < 13 \<and> the (SUIT_MAP s) < 4 \<and>
      the (SUIT_MAP s) * 13 + the (RANK_MAP r) < 52)"
  by (auto simp: parseCard_def elemAt_def lookup_def RANK_MAP_def SUIT_MAP_def)

theorem parseCard_two_characters_witness:
  "parseCard ''Kd'' = Code 37 \<and> parseCard ''Zd'' = CodeNaN \<and> parseCard ''Kx'' = CodeNaN"
  using parseCard_two_characters [of "CHR ''K''" "CHR ''d''"]
        parseCard_two_characters [of "CHR ''Z''" "CHR ''d''"]
        parseCard_two_characters [of "CHR ''K''" "CHR ''x''"]
  by (simp add: RANK_MAP_def SUIT_MAP_def)

text \<open>
  C7 as stated fails: the card string Xs has an unrecognized rank character, and the
  parser returns \<^verbatim>\<open>NaN\<close> for it instead of failing; parsing a list that contains it
  completes too.
\<close>

theorem parseCard_unrecognized_returns_NaN:
  "parseCard ''Xs'' = CodeNaN \<and> parseCards [''Xs'', ''Kd''] = [CodeNaN, Code 37]"
  by (simp add: parseCards_def parseCard_def elemAt_def lookup_def RANK_MAP_def SUIT_MAP_def)

section \<open>Properties of the hand evaluator\<close>

subsection \<open>The comparison sort\<close>

lemma mset_insertBy: "mset (insertBy cmp x xs) = add_mset x (mset xs)"
  by (induction xs) auto

lemma mset_sortBy: "mset (sortBy cmp xs) = mset xs"
  by (induction xs) (auto simp: sortBy_def mset_insertBy)

lemma set_sortBy: "set (sortBy cmp xs) = set xs"
  by (metis mset_sortBy set_mset_mset)

lemma length_sortBy: "length (sortBy cmp xs) = length xs"
  by (metis mset_sortBy size_mset)

lemma distinct_sortBy: "distinct (sortBy cmp xs) = distinct xs"
  by (metis mset_sortBy distinct_count_atmost_1 set_mset_mset)

lemma insertBy_ascending: "insertBy ascending x xs = insort x xs"
  by (induction xs) (auto simp: ascending_def)

lemma sortBy_ascending: "sortBy ascending xs = sort xs"
  by (induction xs) (auto simp: sortBy_def insertBy_ascending)

lemma set_insertBy: "set (insertBy cmp x xs) = insert x (set xs)"
  by (induction xs) auto

lemma descending_le: "descending x y \<le> 0 \<longleftrightarrow> y \<le> x"
  by (simp add: descending_def)

lemma sorted_insertBy_descending:
  "sorted_wrt (\<ge>) xs \<Longrightarrow> sorted_wrt (\<ge>) (insertBy descending x xs)"
  by (induction xs) (auto simp: set_insertBy descending_le)

lemma sorted_sortBy_descending: "sorted_wrt (\<ge>) (sortBy descending xs)"
  by (induction xs) (auto simp: sortBy_def sorted_insertBy_descending)

lemma sortBy_descending: "sortBy descending xs = rev (sort xs)"
proof -
  have "sorted (rev (sortBy descending xs))"
    using sorted_sortBy_descending [of xs] by (simp add: sorted_wrt_rev)
  moreover have "mset (rev (sortBy descending xs)) = mset xs"
    by (simp add: mset_sortBy)
  ultimately have "sort xs = rev (sortBy descending xs)"
    by (rule properties_for_sort [OF _ _, rotated]) 
  then show ?thesis by (metis rev_rev_ident)
qed

subsection \<open>Set and Map\<close>

lemma fromSet_acc:
  "set (foldl (\<lambda>s x. if x \<in> set s then s else s @ [x]) s xs) = set s \<union> set xs \<and>
   (distinct s \<longrightarrow> distinct (foldl (\<lambda>s x. if x \<in> set s then s else s @ [x]) s xs))"
  by (induction xs arbitrary: s) auto

lemma set_fromSet: "set (fromSet xs) = set xs"
  using fromSet_acc [of "[]" xs] by (simp add: fromSet_def)

lemma distinct_fromSet: "distinct (fromSet xs)"
  using fromSet_acc [of "[]" xs] by (simp add: fromSet_def)

lemma map_of_mapSet: "map_of (mapSet k v m) = (map_of m)(k \<mapsto> v)"
  by (induction m) (auto simp: fun_eq_iff)

lemma keys_mapSet: "fst ` set (mapSet k v m) = insert k (fst ` set m)"
proof (induction m)
  case Nil
  then show ?case by simp
next
  case (Cons a m)
  then show ?case by (cases a) (simp add: insert_commute)
qed

lemma distinct_mapSet: "distinct (map fst m) \<Longrightarrow> distinct (map fst (mapSet k v m))"
proof (induction m)
  case Nil
  then show ?case by simp
next
  case (Cons a m)
  then show ?case using keys_mapSet [of k v m] by (cases a) auto
qed

text \<open>The counting loop shared by \<open>countRanks\<close> and \<open>countSuits\<close>, from any map.\<close>

lemma tally_acc:
  fixes f :: "nat \<Rightarrow> nat"
  defines "step \<equiv> (\<lambda>m c. mapSet (f c) (orZero (mapGet m (f c)) + 1) m)"
  shows "orZero (map_of (foldl step m cards) k) = orZero (map_of m k) + count_list (map f cards) k"
    and "fst ` set (foldl step m cards) = fst ` set m \<union> f ` set cards"
    and "distinct (map fst m) \<Longrightarrow> distinct (map fst (foldl step m cards))"
proof (induction cards arbitrary: m)
  case Nil
  { case 1 show ?case by simp }
  { case 2 show ?case by simp }
  { case 3 then show ?case by simp }
next
  case (Cons c cards)
  { case 1 show ?case
      by (simp add: Cons.IH(1)) (simp add: step_def map_of_mapSet mapGet_def orZero_def) }
  { case 2 show ?case
      by (simp add: Cons.IH(2)) (auto simp: step_def keys_mapSet) }
  { case 3
    then have "distinct (map fst (step m c))" by (simp add: step_def distinct_mapSet)
    then show ?case using Cons.IH(3) by simp }
qed


subsection \<open>The straight test\<close>

declare consecutiveFrom.simps [simp del] straightLoop.simps [simp del]

lemma consecutiveFrom_iff:
  "consecutiveFrom u i j \<longleftrightarrow> (\<forall>k. j \<le> k \<and> k < 5 \<longrightarrow> u ! (i + k) = u ! i + k)"
proof (induction u i j rule: consecutiveFrom.induct)
  case (1 u i j)
  show ?case
  proof (cases "j < 5")
    case False
    then show ?thesis by (subst consecutiveFrom.simps) simp
  next
    case True
    show ?thesis
    proof (cases "u ! (i + j) = u ! i + j")
      case False
      then have "\<not> consecutiveFrom u i j"
        using True by (subst consecutiveFrom.simps) simp
      moreover have "\<not> (\<forall>k. j \<le> k \<and> k < 5 \<longrightarrow> u ! (i + k) = u ! i + k)"
        using True False by blast
      ultimately show ?thesis by simp
    next
      case eq: True
      have "consecutiveFrom u i j = consecutiveFrom u i (j + 1)"
        using True eq by (subst consecutiveFrom.simps) simp
      also have "\<dots> \<longleftrightarrow> (\<forall>k. j + 1 \<le> k \<and> k < 5 \<longrightarrow> u ! (i + k) = u ! i + k)"
        using "1.IH" True eq by simp
      also have "\<dots> \<longleftrightarrow> (\<forall>k. j \<le> k \<and> k < 5 \<longrightarrow> u ! (i + k) = u ! i + k)"
      proof
        assume h: "\<forall>k. j + 1 \<le> k \<and> k < 5 \<longrightarrow> u ! (i + k) = u ! i + k"
        show "\<forall>k. j \<le> k \<and> k < 5 \<longrightarrow> u ! (i + k) = u ! i + k"
        proof (intro allI impI)
          fix k assume "j \<le> k \<and> k < 5"
          then show "u ! (i + k) = u ! i + k"
            using h eq by (cases "k = j") auto
        qed
      next
        assume "\<forall>k. j \<le> k \<and> k < 5 \<longrightarrow> u ! (i + k) = u ! i + k"
        then show "\<forall>k. j + 1 \<le> k \<and> k < 5 \<longrightarrow> u ! (i + k) = u ! i + k" by simp
      qed
      finally show ?thesis .
    qed
  qed
qed

lemma straightLoop_iff:
  "straightLoop u i \<longleftrightarrow> (\<exists>p. i \<le> p \<and> p + 5 \<le> length u \<and> consecutiveFrom u p 1)"
proof (induction u i rule: straightLoop.induct)
  case (1 u i)
  show ?case
  proof (cases "int i \<le> int (length u) - 5")
    case False
    then have "\<not> straightLoop u i" by (subst straightLoop.simps) simp
    moreover have "\<not> (\<exists>p. i \<le> p \<and> p + 5 \<le> length u \<and> consecutiveFrom u p 1)"
      using False by auto
    ultimately show ?thesis by simp
  next
    case True
    then have len: "i + 5 \<le> length u" by linarith
    show ?thesis
    proof (cases "consecutiveFrom u i 1")
      case c: True
      then have "straightLoop u i" using True by (subst straightLoop.simps) simp
      then show ?thesis using c len by blast
    next
      case c: False
      have "straightLoop u i = straightLoop u (i + 1)"
        using True c by (subst straightLoop.simps) simp
      also have "\<dots> \<longleftrightarrow> (\<exists>p. i + 1 \<le> p \<and> p + 5 \<le> length u \<and> consecutiveFrom u p 1)"
        using "1.IH" True c by simp
      also have "\<dots> \<longleftrightarrow> (\<exists>p. i \<le> p \<and> p + 5 \<le> length u \<and> consecutiveFrom u p 1)"
      proof
        assume "\<exists>p. i + 1 \<le> p \<and> p + 5 \<le> length u \<and> consecutiveFrom u p 1"
        then obtain p where "i + 1 \<le> p" "p + 5 \<le> length u" "consecutiveFrom u p 1" by blast
        then have "i \<le> p \<and> p + 5 \<le> length u \<and> consecutiveFrom u p 1" by simp
        then show "\<exists>p. i \<le> p \<and> p + 5 \<le> length u \<and> consecutiveFrom u p 1" ..
      next
        assume "\<exists>p. i \<le> p \<and> p + 5 \<le> length u \<and> consecutiveFrom u p 1"
        then obtain p where p: "i \<le> p" "p + 5 \<le> length u" "consecutiveFrom u p 1" by blast
        then have "p \<noteq> i" using c by auto
        then have "i + 1 \<le> p \<and> p + 5 \<le> length u \<and> consecutiveFrom u p 1" using p by simp
        then show "\<exists>p. i + 1 \<le> p \<and> p + 5 \<le> length u \<and> consecutiveFrom u p 1" ..
      qed
      finally show ?thesis .
    qed
  qed
qed

lemma strict_nth_ge:
  "sorted_wrt (<) (u :: nat list) \<Longrightarrow> i + k < length u \<Longrightarrow> u ! i + k \<le> u ! (i + k)"
proof (induction k)
  case 0
  then show ?case by simp
next
  case (Suc k)
  then have "u ! (i + k) < u ! (i + Suc k)"
    by (simp add: sorted_wrt_iff_nth_less)
  then show ?case using Suc by simp
qed

lemma strict_nth_le:
  assumes "sorted_wrt (<) (u :: nat list)" "a \<le> b" "b < length u"
  shows "u ! a \<le> u ! b"
proof (cases "a = b")
  case True
  then show ?thesis by simp
next
  case False
  then have "a < b" using assms(2) by simp
  then have "u ! a < u ! b" using assms(1,3) sorted_wrt_nth_less [of "(<)" u a b] by simp
  then show ?thesis by simp
qed

lemma strict_index_less:
  assumes "sorted_wrt (<) (u :: nat list)" "a < length u" "b < length u" "u ! a < u ! b"
  shows "a < b"
proof (rule ccontr)
  assume "\<not> a < b"
  then have "b \<le> a" by simp
  then have "u ! b \<le> u ! a"
    using assms(1,2) strict_nth_le [of u b a] by simp
  then show False using assms(4) by simp
qed

lemma window_of_run:
  assumes s: "sorted_wrt (<) (u :: nat list)"
    and run: "\<forall>k<5. r + k \<in> set u"
  shows "\<exists>p. p + 5 \<le> length u \<and> (\<forall>k. 1 \<le> k \<and> k < 5 \<longrightarrow> u ! (p + k) = u ! p + k)"
proof -
  have m: "\<exists>q<length u. u ! q = r + k" if "k < 5" for k
    using run that by (simp add: in_set_conv_nth)
  obtain q0 where q0: "q0 < length u" "u ! q0 = r" using m [of 0] by auto
  obtain q1 where q1: "q1 < length u" "u ! q1 = r + 1" using m [of 1] by auto
  obtain q2 where q2: "q2 < length u" "u ! q2 = r + 2" using m [of 2] by auto
  obtain q3 where q3: "q3 < length u" "u ! q3 = r + 3" using m [of 3] by auto
  obtain q4 where q4: "q4 < length u" "u ! q4 = r + 4" using m [of 4] by auto
  note q = q0 q1 q2 q3 q4
  have "q0 < q1" using q0 q1 by (simp add: strict_index_less [OF s])
  moreover have "q1 < q2" using q1 q2 by (simp add: strict_index_less [OF s])
  moreover have "q2 < q3" using q2 q3 by (simp add: strict_index_less [OF s])
  moreover have "q3 < q4" using q3 q4 by (simp add: strict_index_less [OF s])
  ultimately have o: "q0 < q1" "q1 < q2" "q2 < q3" "q3 < q4" by simp_all
  have idx: "k < 5 \<Longrightarrow> \<exists>q. q0 + k \<le> q \<and> q < length u \<and> u ! q = r + k" for k
  proof -
    assume "k < 5"
    then consider "k = 0" | "k = 1" | "k = 2" | "k = 3" | "k = 4" by linarith
    then show ?thesis
    proof cases
      case 1 then show ?thesis using q by auto
    next
      case 2 then show ?thesis using q o by (intro exI [of _ q1]) auto
    next
      case 3 then show ?thesis using q o by (intro exI [of _ q2]) auto
    next
      case 4 then show ?thesis using q o by (intro exI [of _ q3]) auto
    next
      case 5 then show ?thesis using q o by (intro exI [of _ q4]) auto
    qed
  qed
  have len: "q0 + 5 \<le> length u" using idx [of 4] by auto
  have "u ! (q0 + k) = u ! q0 + k" if k5: "k < 5" for k
  proof -
    obtain qk where qk: "q0 + k \<le> qk" "qk < length u" "u ! qk = r + k"
      using idx [OF k5] by blast
    have "u ! q0 + k \<le> u ! (q0 + k)"
      using strict_nth_ge [OF s, of q0 k] qk by simp
    moreover have "u ! (q0 + k) \<le> u ! qk"
      using strict_nth_le [OF s qk(1,2)] .
    ultimately show ?thesis using qk q by simp
  qed
  then show ?thesis using len by blast
qed

lemma straightLoop_sorted:
  assumes s: "sorted_wrt (<) (u :: nat list)"
  shows "straightLoop u 0 \<longleftrightarrow> (\<exists>r. \<forall>k<5. r + k \<in> set u)"
proof
  assume "straightLoop u 0"
  then obtain p where p: "p + 5 \<le> length u" "\<forall>k. 1 \<le> k \<and> k < 5 \<longrightarrow> u ! (p + k) = u ! p + k"
    by (auto simp: straightLoop_iff consecutiveFrom_iff)
  have "u ! p + k \<in> set u" if "k < 5" for k
  proof (cases "k = 0")
    case True
    then show ?thesis using p(1) by simp
  next
    case False
    then have "u ! (p + k) = u ! p + k" using p(2) that by simp
    moreover have "u ! (p + k) \<in> set u" using p(1) that by simp
    ultimately show ?thesis by simp
  qed
  then show "\<exists>r. \<forall>k<5. r + k \<in> set u" by blast
next
  assume "\<exists>r. \<forall>k<5. r + k \<in> set u"
  then obtain r where "\<forall>k<5. r + k \<in> set u" ..
  from window_of_run [OF s this] show "straightLoop u 0"
    by (auto simp: straightLoop_iff consecutiveFrom_iff)
qed

lemma isStraight_iff:
  "isStraight ranks \<longleftrightarrow>
     {12, 0, 1, 2, 3} \<subseteq> set ranks \<or> (\<exists>r. \<forall>k<5. r + k \<in> set ranks)"
proof -
  let ?u = "sortBy ascending (fromSet ranks)"
  have "sorted_wrt (<) ?u"
    by (simp add: sortBy_ascending strict_sorted_iff distinct_fromSet)
  then have "straightLoop ?u 0 \<longleftrightarrow> (\<exists>r. \<forall>k<5. r + k \<in> set ranks)"
    by (simp add: straightLoop_sorted set_sortBy set_fromSet)
  then show ?thesis
    by (auto simp: isStraight_def Let_def set_sortBy set_fromSet)
qed


subsection \<open>The counting maps\<close>

lemma countRanks_fold:
  "countRanks cards = foldl (\<lambda>m c. mapSet (getRank c) (orZero (mapGet m (getRank c)) + 1) m) [] cards"
  by (simp add: countRanks_def Let_def)

lemma countSuits_fold:
  "countSuits cards = foldl (\<lambda>m c. mapSet (getSuit c) (orZero (mapGet m (getSuit c)) + 1) m) [] cards"
  by (simp add: countSuits_def Let_def)

lemma countRanks_lookup: "orZero (map_of (countRanks cards) r) = multiplicity cards r"
  unfolding countRanks_fold multiplicity_def using tally_acc(1) [of getRank "[]" cards r]
  by (simp add: orZero_def)

lemma countRanks_keys: "fst ` set (countRanks cards) = getRank ` set cards"
  unfolding countRanks_fold using tally_acc(2) [of getRank "[]" cards] by simp

lemma countRanks_distinct: "distinct (map fst (countRanks cards))"
  unfolding countRanks_fold using tally_acc(3) [of "[]" getRank cards] by simp

lemma countSuits_lookup: "orZero (map_of (countSuits cards) s) = suitCount cards s"
  unfolding countSuits_fold suitCount_def using tally_acc(1) [of getSuit "[]" cards s]
  by (simp add: orZero_def)

lemma countSuits_keys: "fst ` set (countSuits cards) = getSuit ` set cards"
  unfolding countSuits_fold using tally_acc(2) [of getSuit "[]" cards] by simp

lemma countSuits_distinct: "distinct (map fst (countSuits cards))"
  unfolding countSuits_fold using tally_acc(3) [of "[]" getSuit cards] by simp

lemma alist_values:
  "distinct (map fst m) \<Longrightarrow> map snd m = map (\<lambda>k. orZero (map_of m k)) (map fst m)"
proof (induction m)
  case Nil
  then show ?case by simp
next
  case (Cons a m)
  then have "map (\<lambda>k. orZero (map_of (a # m) k)) (map fst m) = map (\<lambda>k. orZero (map_of m k)) (map fst m)"
    by (cases a) (auto simp: image_iff)
  then show ?case using Cons by (cases a) (simp add: orZero_def)
qed

lemma count_list_pos: "count_list xs x > 0 \<longleftrightarrow> x \<in> set xs"
  by (induction xs) auto

lemma countRanks_values:
  "mset (map snd (countRanks cards)) = mset (map (multiplicity cards) (remdups (map getRank cards)))"
proof -
  have "map snd (countRanks cards) = map (multiplicity cards) (map fst (countRanks cards))"
    using alist_values [OF countRanks_distinct, of cards] by (simp add: countRanks_lookup)
  moreover have "mset (map fst (countRanks cards)) = mset (remdups (map getRank cards))"
    using countRanks_distinct [of cards] countRanks_keys [of cards]
    by (subst set_eq_iff_mset_eq_distinct [symmetric]) simp_all
  ultimately show ?thesis by (metis mset_map)
qed

lemma sortedCounts_multiplicities:
  "sortBy descending (map snd (countRanks cards)) = multiplicities cards"
proof -
  have "sort (map snd (countRanks cards)) = sort (map (multiplicity cards) (remdups (map getRank cards)))"
    using countRanks_values [of cards] by (intro properties_for_sort) simp_all
  then show ?thesis by (simp add: sortBy_descending multiplicities_def)
qed

lemma isFlush_iff: "isFlush cards \<longleftrightarrow> (\<exists>s. suitCount cards s \<ge> 5)"
proof
  assume "isFlush cards"
  then obtain s v where sv: "(s, v) \<in> set (countSuits cards)" "v \<ge> 5"
    by (auto simp: isFlush_def Let_def list_ex_iff)
  then have "map_of (countSuits cards) s = Some v"
    using countSuits_distinct [of cards] by simp
  then have "suitCount cards s = v"
    using countSuits_lookup [of cards s] by (simp add: orZero_def)
  then show "\<exists>s. suitCount cards s \<ge> 5" using sv by blast
next
  assume "\<exists>s. suitCount cards s \<ge> 5"
  then obtain s where s: "suitCount cards s \<ge> 5" ..
  then have "s \<in> getSuit ` set cards"
    using count_list_pos [of "map getSuit cards" s] by (simp add: suitCount_def)
  then obtain v where v: "(s, v) \<in> set (countSuits cards)"
    using countSuits_keys [of cards] by force
  then have "map_of (countSuits cards) s = Some v"
    using countSuits_distinct [of cards] by simp
  then have "suitCount cards s = v"
    using countSuits_lookup [of cards s] by (simp add: orZero_def)
  then show "isFlush cards" using s v by (force simp: isFlush_def Let_def list_ex_iff)
qed


lemma hasFlush_iff: "hasFlush cards \<longleftrightarrow> isFlush cards"
proof -
  have "suitCount cards s \<ge> 5 \<Longrightarrow> s \<in> getSuit ` set cards" for s
    using count_list_pos [of "map getSuit cards" s] by (simp add: suitCount_def)
  then show ?thesis unfolding hasFlush_def isFlush_iff by blast
qed

lemma hasStraight_iff: "hasStraight cards \<longleftrightarrow> isStraight (map getRank cards)"
proof -
  have "(\<exists>r \<in> getRank ` set cards. \<forall>k \<in> {0..<5}. r + k \<in> getRank ` set cards) \<longleftrightarrow>
        (\<exists>r. \<forall>k<5. r + k \<in> getRank ` set cards)" (is "?A \<longleftrightarrow> ?B")
  proof
    assume ?A
    then obtain r where "\<forall>k \<in> {0..<5}. r + k \<in> getRank ` set cards" by blast
    then have "\<forall>k<5. r + k \<in> getRank ` set cards" by simp
    then show ?B ..
  next
    assume ?B
    then obtain r where r: "\<forall>k<5. r + k \<in> getRank ` set cards" ..
    then have "r + 0 \<in> getRank ` set cards" by (meson zero_less_numeral)
    then have "r \<in> getRank ` set cards" by simp
    moreover have "\<forall>k \<in> {0..<5}. r + k \<in> getRank ` set cards" using r by simp
    ultimately show ?A by (rule bexI [rotated])
  qed
  then show ?thesis by (simp add: hasStraight_def isStraight_iff Let_def)
qed

subsection \<open>The sorted multiplicities\<close>

lemma take1_elemAt: "take 1 xs = [a] \<longleftrightarrow> elemAt xs 0 = Some a"
  by (cases xs) (auto simp: elemAt_def)

lemma take2_elemAt: "take 2 xs = [a, b] \<longleftrightarrow> elemAt xs 0 = Some a \<and> elemAt xs 1 = Some b"
proof (cases xs)
  case Nil
  then show ?thesis by (simp add: elemAt_def)
next
  case (Cons x ys)
  then show ?thesis by (cases ys) (auto simp: elemAt_def numeral_2_eq_2)
qed

lemma top_of_descending:
  "elemAt (rev (sort xs)) 0 = Some v \<longleftrightarrow> xs \<noteq> [] \<and> v = Max (set xs)"
proof (cases "rev (sort xs)")
  case Nil
  then have "xs = []" by (metis length_0_conv length_rev length_sort)
  then show ?thesis by (simp add: elemAt_def)
next
  case (Cons a as)
  have "sorted_wrt (\<ge>) (rev (sort xs))"
    by (simp add: sorted_wrt_rev)
  then have ub: "\<forall>x \<in> set as. x \<le> a" using Cons by simp
  have s: "set xs = insert a (set as)"
    using Cons by (metis list.simps(15) set_rev set_sort)
  have "Max (set xs) = a"
  proof (rule Max_eqI)
    show "finite (set xs)" by simp
    show "y \<le> a" if "y \<in> set xs" for y using that s ub by auto
    show "a \<in> set xs" using s by simp
  qed
  moreover have "xs \<noteq> []" using s by auto
  moreover have "elemAt (rev (sort xs)) 0 = Some a" using Cons by (simp add: elemAt_def)
  ultimately show ?thesis by auto
qed

lemma count_two_ranks:
  "r \<noteq> r' \<Longrightarrow> count_list xs r + count_list xs r' \<le> length xs"
  by (induction xs) auto

lemma set_multiplicities:
  "set (multiplicities cards) = multiplicity cards ` getRank ` set cards"
  by (simp add: multiplicities_def)

lemma four_of_a_kind_iff:
  assumes "length cards = 7"
  shows "elemAt (multiplicities cards) 0 = Some 4 \<longleftrightarrow>
         (\<exists>r \<in> getRank ` set cards. multiplicity cards r = 4)"
proof
  assume "elemAt (multiplicities cards) 0 = Some 4"
  then have "multiplicities cards \<noteq> []" "multiplicities cards ! 0 = 4"
    by (auto simp: elemAt_def split: if_splits)
  then have "4 \<in> set (multiplicities cards)"
    using nth_mem [of 0 "multiplicities cards"] by simp
  then show "\<exists>r \<in> getRank ` set cards. multiplicity cards r = 4"
    by (auto simp: set_multiplicities)
next
  assume "\<exists>r \<in> getRank ` set cards. multiplicity cards r = 4"
  then obtain r where r: "r \<in> getRank ` set cards" "multiplicity cards r = 4" by blast
  let ?ms = "map (multiplicity cards) (remdups (map getRank cards))"
  have ne: "?ms \<noteq> []" using r(1) by auto
  have in4: "4 \<in> set ?ms" using r by force
  have "Max (set ?ms) \<in> set ?ms" using ne by (intro Max_in) auto
  then obtain r' where r': "multiplicity cards r' = Max (set ?ms)" by auto
  have ge: "Max (set ?ms) \<ge> 4" using in4 by simp
  have "Max (set ?ms) = 4"
  proof (rule ccontr)
    assume "Max (set ?ms) \<noteq> 4"
    then have big: "multiplicity cards r' \<ge> 5" using ge r' by simp
    then have "r' \<noteq> r" using r(2) by auto
    then have "multiplicity cards r' + multiplicity cards r \<le> 7"
      using count_two_ranks [of r' r "map getRank cards"] assms by (simp add: multiplicity_def)
    then show False using big r(2) by simp
  qed
  then show "elemAt (multiplicities cards) 0 = Some 4"
    using ne top_of_descending [of ?ms 4] by (simp add: multiplicities_def)
qed

lemma evaluateHand_rank:
  "rank (evaluateHand cards) =
     (if hasFlush cards \<and> hasStraight cards then
        (if {8, 9, 10, 11, 12} \<subseteq> getRank ` set cards then ROYAL_FLUSH else STRAIGHT_FLUSH)
      else if elemAt (multiplicities cards) 0 = Some 4 then FOUR_OF_A_KIND
      else if elemAt (multiplicities cards) 0 = Some 3 \<and> elemAt (multiplicities cards) 1 = Some 2
        then FULL_HOUSE
      else if hasFlush cards then FLUSH
      else if hasStraight cards then STRAIGHT
      else if elemAt (multiplicities cards) 0 = Some 3 then THREE_OF_A_KIND
      else if elemAt (multiplicities cards) 0 = Some 2 \<and> elemAt (multiplicities cards) 1 = Some 2
        then TWO_PAIR
      else if elemAt (multiplicities cards) 0 = Some 2 then ONE_PAIR
      else HIGH_CARD)"
  by (simp add: evaluateHand_def Let_def hasFlush_iff hasStraight_iff sortedCounts_multiplicities)

subsection \<open>Category assignment\<close>

text \<open>
  C3. For every 7-card input the category of \<open>evaluateHand\<close> is the first match in the
  precedence Straight Flush (flush and straight; the code then tells Royal Flush apart),
  Four of a Kind (some rank with multiplicity 4), Full House (the sorted multiplicities
  begin with 3, 2), Flush, Straight, Three of a Kind (top multiplicity 3), Two Pair (the
  sorted multiplicities begin with 2, 2), One Pair (top multiplicity 2), High Card.
\<close>

theorem evaluateHand_precedence:
  assumes "length cards = 7"
  shows "(categoryByPrecedence cards = STRAIGHT_FLUSH \<longrightarrow>
            rank (evaluateHand cards) = STRAIGHT_FLUSH \<or> rank (evaluateHand cards) = ROYAL_FLUSH) \<and>
         (categoryByPrecedence cards \<noteq> STRAIGHT_FLUSH \<longrightarrow>
            rank (evaluateHand cards) = categoryByPrecedence cards)"
  unfolding evaluateHand_rank categoryByPrecedence_def take1_elemAt take2_elemAt
    four_of_a_kind_iff [OF assms, symmetric]
  by (simp add: HAND_RANKS)

theorem evaluateHand_precedence_witness:
  "length [18, 16, 7, 20, 5, 29, 40 :: nat] = 7 \<and>
   categoryByPrecedence [18, 16, 7, 20, 5, 29, 40] = TWO_PAIR \<and>
   rank (evaluateHand [18, 16, 7, 20, 5, 29, 40]) = TWO_PAIR \<and>
   categoryByPrecedence [0, 1, 2, 3, 4, 26, 40] = STRAIGHT_FLUSH \<and>
   (rank (evaluateHand [0, 1, 2, 3, 4, 26, 40]) = STRAIGHT_FLUSH \<or>
    rank (evaluateHand [0, 1, 2, 3, 4, 26, 40]) = ROYAL_FLUSH)"
proof -
  have a: "categoryByPrecedence [18, 16, 7, 20, 5, 29, 40] = TWO_PAIR"
    "categoryByPrecedence [0, 1, 2, 3, 4, 26, 40] = STRAIGHT_FLUSH"
    by code_simp+
  show ?thesis
    using evaluateHand_precedence [of "[18, 16, 7, 20, 5, 29, 40]"]
          evaluateHand_precedence [of "[0, 1, 2, 3, 4, 26, 40]"] a
    by (simp add: HAND_RANKS)
qed




subsection \<open>Royal Flush\<close>




subsection \<open>Inputs of any size\<close>

text \<open>
  C8, as amended. The hand evaluator checks no size: for every input list of cards, of
  any length, it returns a hand evaluation, whose category is one of the ten and whose
  key lists the distinct ranks of the input.
\<close>

theorem evaluateHand_any_length:
  "rank (evaluateHand cards) \<le> ROYAL_FLUSH \<and>
   distinct (keyRanks (evaluateHand cards)) \<and>
   set (keyRanks (evaluateHand cards)) = getRank ` set cards"
proof -
  have "rank (evaluateHand cards) \<le> ROYAL_FLUSH"
    by (simp add: evaluateHand_rank HAND_RANKS)
  moreover have "mset (keyRanks (evaluateHand cards)) = mset (map fst (countRanks cards))"
    by (simp add: evaluateHand_def Let_def mset_sortBy)
  then have "distinct (keyRanks (evaluateHand cards)) \<and>
             set (keyRanks (evaluateHand cards)) = getRank ` set cards"
    using countRanks_distinct [of cards] countRanks_keys [of cards]
    by (metis mset_eq_setD mset_eq_imp_distinct_iff list.set_map)
  ultimately show ?thesis by simp
qed

text \<open>
  C8 as stated fails: the empty list and the two cards As Ah are not seven cards, and
  the evaluator returns High Card and One Pair for them instead of failing.
\<close>

theorem evaluateHand_accepts_other_sizes:
  "evaluateHand [] = \<lparr>rank = HIGH_CARD, keyRanks = []\<rparr> \<and>
   evaluateHand [12, 25] = \<lparr>rank = ONE_PAIR, keyRanks = [12]\<rparr> \<and>
   length [12, 25 :: nat] \<noteq> 7"
  by code_simp

lemma sum_list_multiplicities: "sum_list (multiplicities cards) = length cards"
proof -
  let ?rs = "map getRank cards"
  have "sum_list (multiplicities cards) = sum_list (map (multiplicity cards) (remdups ?rs))"
    unfolding multiplicities_def by (metis mset_rev mset_sort sum_mset_sum_list)
  also have "\<dots> = sum (count_list ?rs) (set ?rs)"
    by (simp add: sum_list_distinct_conv_sum_set multiplicity_def [abs_def])
  also have "\<dots> = length ?rs" by (rule sum_count_set) auto
  finally show ?thesis by simp
qed

lemma length_multiplicities: "length (multiplicities cards) = card (getRank ` set cards)"
  by (simp add: multiplicities_def length_remdups_card_conv)

lemma multiplicities_pos: "m \<in> set (multiplicities cards) \<Longrightarrow> m \<ge> 1"
  using count_list_pos [of "map getRank cards"]
  by (auto simp: set_multiplicities multiplicity_def Suc_le_eq)

lemma sum_list_ge_length: "\<forall>x \<in> set xs. (1::nat) \<le> x \<Longrightarrow> length xs \<le> sum_list xs"
  by (induction xs) auto

lemma five_ranks_no_quads_no_full_house:
  assumes len: "length cards = 7" and five: "card (getRank ` set cards) \<ge> 5"
  shows "elemAt (multiplicities cards) 0 \<noteq> Some 4"
    and "\<not> (elemAt (multiplicities cards) 0 = Some 3 \<and> elemAt (multiplicities cards) 1 = Some 2)"
proof -
  let ?ms = "multiplicities cards"
  have l: "length ?ms \<ge> 5" using five by (simp add: length_multiplicities)
  then obtain a b rest where ms: "?ms = a # b # rest"
    by (cases ?ms; cases "tl ?ms") auto
  have lr: "length rest \<ge> 3" using l ms by simp
  have "\<forall>x \<in> set rest. 1 \<le> x" using multiplicities_pos [of _ cards] ms by simp
  then have "length rest \<le> sum_list rest" by (rule sum_list_ge_length)
  then have rest: "3 \<le> sum_list rest" using lr by simp
  have b: "1 \<le> b" using multiplicities_pos [of b cards] ms by simp
  have total: "a + b + sum_list rest = 7"
    using sum_list_multiplicities [of cards] ms len by simp
  show "elemAt ?ms 0 \<noteq> Some 4" using total rest b ms by (auto simp: elemAt_def)
  show "\<not> (elemAt ?ms 0 = Some 3 \<and> elemAt ?ms 1 = Some 2)"
    using total rest ms by (auto simp: elemAt_def)
qed

subsection \<open>The wheel\<close>

text \<open>
  C4, as amended. The straight test accepts a list of ranks exactly when it holds the
  wheel A, 2, 3, 4, 5 (12, 0, 1, 2, 3) or five consecutive values, so no other wrap-around
  is a straight. A 7-card hand that holds K, A, 2, 3, 4 and no straight evaluates to
  less than Straight unless five of its cards share a suit, and then to Flush. The hand
  Ks As 2h 3d 4c 9h 9d is not a straight and evaluates to less than Straight;
  As 2s 3h 4d 5c 9h 9d is a straight and evaluates to at least Straight.
\<close>

theorem straight_test_wheel_only:
  "(isStraight ranks \<longleftrightarrow>
      {12, 0, 1, 2, 3} \<subseteq> set ranks \<or> (\<exists>r. \<forall>k<5. r + k \<in> set ranks)) \<and>
   (length cards = 7 \<and> {11, 12, 0, 1, 2} \<subseteq> getRank ` set cards \<and> \<not> hasStraight cards \<longrightarrow>
      (hasFlush cards \<longrightarrow> rank (evaluateHand cards) = FLUSH) \<and>
      (\<not> hasFlush cards \<longrightarrow> rank (evaluateHand cards) < STRAIGHT)) \<and>
   \<not> isStraight (map getRank [11, 12, 13, 27, 41, 20, 33]) \<and>
   rank (evaluateHand [11, 12, 13, 27, 41, 20, 33]) < STRAIGHT \<and>
   isStraight (map getRank [12, 0, 14, 28, 42, 20, 33]) \<and>
   rank (evaluateHand [12, 0, 14, 28, 42, 20, 33]) \<ge> STRAIGHT"
proof -
  have general: "(hasFlush cards \<longrightarrow> rank (evaluateHand cards) = FLUSH) \<and>
      (\<not> hasFlush cards \<longrightarrow> rank (evaluateHand cards) < STRAIGHT)"
    if len: "length cards = 7" and sub: "{11, 12, 0, 1, 2} \<subseteq> getRank ` set cards"
      and ns: "\<not> hasStraight cards"
  proof -
    have "card {11, 12, 0, 1, 2 :: nat} \<le> card (getRank ` set cards)"
      using sub by (intro card_mono) auto
    then have five: "card (getRank ` set cards) \<ge> 5" by simp
    note no = five_ranks_no_quads_no_full_house [OF len five]
    show ?thesis using no ns by (simp add: evaluateHand_rank HAND_RANKS)
  qed
  have examples: "\<not> isStraight (map getRank [11, 12, 13, 27, 41, 20, 33]) \<and>
   rank (evaluateHand [11, 12, 13, 27, 41, 20, 33]) < STRAIGHT \<and>
   isStraight (map getRank [12, 0, 14, 28, 42, 20, 33]) \<and>
   rank (evaluateHand [12, 0, 14, 28, 42, 20, 33]) \<ge> STRAIGHT"
    by code_simp
  show ?thesis using isStraight_iff [of ranks] general examples by blast
qed

theorem straight_test_wheel_only_witness:
  "length [11, 12, 13, 27, 41, 20, 33 :: nat] = 7 \<and>
   {11, 12, 0, 1, 2} \<subseteq> getRank ` set [11, 12, 13, 27, 41, 20, 33] \<and>
   \<not> hasStraight [11, 12, 13, 27, 41, 20, 33] \<and> \<not> hasFlush [11, 12, 13, 27, 41, 20, 33] \<and>
   rank (evaluateHand [11, 12, 13, 27, 41, 20, 33]) < STRAIGHT"
proof -
  have a: "\<not> hasStraight [11, 12, 13, 27, 41, 20, 33]" "\<not> hasFlush [11, 12, 13, 27, 41, 20, 33]"
    by code_simp+
  have b: "{11, 12, 0, 1, 2} \<subseteq> getRank ` set [11, 12, 13, 27, 41, 20, 33]"
    by (simp add: getRank_def)
  show ?thesis
    using straight_test_wheel_only [of "[]" "[11, 12, 13, 27, 41, 20, 33]"] a b by simp
qed

text \<open>
  C4 as stated fails in its general part: Ks As 2s 3s 4s 9h 9d holds K, A, 2, 3, 4 and no
  five consecutive ranks, the straight test rejects it, and it evaluates to Flush, which
  is not less than Straight.
\<close>

theorem king_ace_low_flush_not_below_straight:
  "length [11, 12, 0, 1, 2, 20, 33 :: nat] = 7 \<and>
   {11, 12, 0, 1, 2} \<subseteq> getRank ` set [11, 12, 0, 1, 2, 20, 33] \<and>
   \<not> isStraight (map getRank [11, 12, 0, 1, 2, 20, 33]) \<and>
   \<not> (\<exists>r. \<forall>k<5. r + k \<in> getRank ` set [11, 12, 0, 1, 2, 20, 33]) \<and>
   rank (evaluateHand [11, 12, 0, 1, 2, 20, 33]) = FLUSH \<and>
   \<not> rank (evaluateHand [11, 12, 0, 1, 2, 20, 33]) < STRAIGHT"
proof -
  have a: "\<not> isStraight (map getRank [11, 12, 0, 1, 2, 20, 33])"
    "rank (evaluateHand [11, 12, 0, 1, 2, 20, 33]) = FLUSH"
    by code_simp+
  have b: "{11, 12, 0, 1, 2} \<subseteq> getRank ` set [11, 12, 0, 1, 2, 20, 33]"
    by (simp add: getRank_def)
  have c: "\<not> (\<exists>r. \<forall>k<5. r + k \<in> getRank ` set [11, 12, 0, 1, 2, 20, 33])"
    using a(1) isStraight_iff [of "map getRank [11, 12, 0, 1, 2, 20, 33]"] by simp
  show ?thesis using a b c by (simp add: HAND_RANKS)
qed


section \<open>Properties of the comparison\<close>

lemma jsGreater_iff: "jsGreater (elemAt k1 i) (elemAt k2 i) \<longleftrightarrow> i < length k1 \<and> i < length k2 \<and> k1 ! i > k2 ! i"
  by (simp add: jsGreater_def elemAt_def)

lemma jsLess_iff: "jsLess (elemAt k1 i) (elemAt k2 i) \<longleftrightarrow> i < length k1 \<and> i < length k2 \<and> k1 ! i < k2 ! i"
  by (simp add: jsLess_def elemAt_def)

declare compareKeys.simps [simp del]

lemma compareKeys_step:
  "i < length k1 \<Longrightarrow> compareKeys k1 k2 i =
     (if i < length k2 \<and> k1 ! i > k2 ! i then 1
      else if i < length k2 \<and> k1 ! i < k2 ! i then -1
      else compareKeys k1 k2 (Suc i))"
  by (subst compareKeys.simps) (simp add: jsGreater_iff jsLess_iff)

lemma compareKeys_done: "\<not> i < length k1 \<Longrightarrow> compareKeys k1 k2 i = 0"
  by (subst compareKeys.simps) simp

lemma agree_Suc: "agree k1 k2 i p \<Longrightarrow> i \<le> p \<Longrightarrow> (agree k1 k2 (Suc i) p \<and> (i < p \<longrightarrow> k1 ! i = k2 ! i))"
  by (auto simp: agree_def)

lemma agree_extend: "k1 ! i = k2 ! i \<Longrightarrow> agree k1 k2 (Suc i) p \<Longrightarrow> agree k1 k2 i p"
  unfolding agree_def by (metis Suc_leI le_neq_implies_less)

lemma compareKeys_eq_0:
  "compareKeys k1 k2 i = 0 \<longleftrightarrow> agree k1 k2 i (min (length k1) (length k2))"
proof (induction k1 k2 i rule: compareKeys.induct)
  case (1 k1 k2 i)
  show ?case
  proof (cases "i < length k1")
    case False
    then show ?thesis by (simp add: compareKeys_done agree_def)
  next
    case True
    show ?thesis
    proof (cases "i < length k2")
      case False
      have "compareKeys k1 k2 i = compareKeys k1 k2 (Suc i)"
        using True False by (simp add: compareKeys_step)
      moreover have "compareKeys k1 k2 (Suc i) = 0 \<longleftrightarrow> agree k1 k2 (Suc i) (min (length k1) (length k2))"
        using 1 True False by (simp add: jsGreater_iff jsLess_iff)
      moreover have "agree k1 k2 (Suc i) (min (length k1) (length k2))" "agree k1 k2 i (min (length k1) (length k2))"
        using False by (auto simp: agree_def)
      ultimately show ?thesis by simp
    next
      case k2: True
      consider "k1 ! i > k2 ! i" | "k1 ! i < k2 ! i" | "k1 ! i = k2 ! i" by linarith
      then show ?thesis
      proof cases
        case 1
        then have "\<not> agree k1 k2 i (min (length k1) (length k2))"
          using True k2 by (auto simp: agree_def)
        then show ?thesis using 1 True k2 by (simp add: compareKeys_step)
      next
        case 2
        then have "\<not> agree k1 k2 i (min (length k1) (length k2))"
          using True k2 by (auto simp: agree_def)
        then show ?thesis using 2 True k2 by (simp add: compareKeys_step)
      next
        case 3
        have step: "compareKeys k1 k2 i = compareKeys k1 k2 (Suc i)"
          using 3 True by (simp add: compareKeys_step)
        have ih: "compareKeys k1 k2 (Suc i) = 0 \<longleftrightarrow> agree k1 k2 (Suc i) (min (length k1) (length k2))"
          using "1.IH" True 3 by (simp add: jsGreater_iff jsLess_iff)
        have "agree k1 k2 (Suc i) (min (length k1) (length k2)) \<longleftrightarrow> agree k1 k2 i (min (length k1) (length k2))"
          using 3 True k2 agree_Suc [of k1 k2 i] agree_extend [of k1 i k2] by auto
        then show ?thesis using step ih by simp
      qed
    qed
  qed
qed


lemma compareKeys_eq_1:
  "compareKeys k1 k2 i = 1 \<longleftrightarrow>
     (\<exists>p. i \<le> p \<and> p < length k1 \<and> p < length k2 \<and> k1 ! p > k2 ! p \<and> agree k1 k2 i p)"
proof (induction k1 k2 i rule: compareKeys.induct)
  case (1 k1 k2 i)
  let ?R = "\<lambda>i. \<exists>p. i \<le> p \<and> p < length k1 \<and> p < length k2 \<and> k1 ! p > k2 ! p \<and> agree k1 k2 i p"
  show ?case
  proof (cases "i < length k1 \<and> i < length k2")
    case False
    have "\<not> ?R i"
    proof
      assume "?R i"
      then obtain p where "i \<le> p" "p < length k1" "p < length k2" by blast
      with False show False by linarith
    qed
    moreover have "\<not> ?R (Suc i)"
    proof
      assume "?R (Suc i)"
      then obtain p where "Suc i \<le> p" "p < length k1" "p < length k2" by blast
      with False show False by linarith
    qed
    moreover have "compareKeys k1 k2 i = 1 \<longleftrightarrow> i < length k1 \<and> compareKeys k1 k2 (Suc i) = 1"
      using False by (cases "i < length k1") (simp_all add: compareKeys_step compareKeys_done)
    moreover have "i < length k1 \<Longrightarrow> compareKeys k1 k2 (Suc i) = 1 \<longleftrightarrow> ?R (Suc i)"
      using "1.IH" False by (simp add: jsGreater_iff jsLess_iff)
    ultimately show ?thesis by blast
  next
    case True
    consider "k1 ! i > k2 ! i" | "k1 ! i < k2 ! i" | "k1 ! i = k2 ! i" by linarith
    then show ?thesis
    proof cases
      case 1
      have "agree k1 k2 i i" by (simp add: agree_def)
      then have "?R i" using 1 True by blast
      then show ?thesis using 1 True by (simp add: compareKeys_step)
    next
      case 2
      have "\<not> ?R i"
      proof
        assume "?R i"
        then obtain p where p: "i \<le> p" "k1 ! p > k2 ! p" "agree k1 k2 i p" by blast
        then have "i < p" using 2 by (cases "p = i") auto
        then show False using p 2 by (auto simp: agree_def)
      qed
      then show ?thesis using 2 True by (simp add: compareKeys_step)
    next
      case 3
      have step: "compareKeys k1 k2 i = compareKeys k1 k2 (Suc i)"
        using 3 True by (simp add: compareKeys_step)
      have ih: "compareKeys k1 k2 (Suc i) = 1 \<longleftrightarrow> ?R (Suc i)"
        using "1.IH" True 3 by (simp add: jsGreater_iff jsLess_iff)
      have "?R i \<longleftrightarrow> ?R (Suc i)"
      proof
        assume "?R i"
        then obtain p where p: "i \<le> p" "p < length k1" "p < length k2" "k1 ! p > k2 ! p" "agree k1 k2 i p" by blast
        then have "i < p" using 3 by (cases "p = i") auto
        then show "?R (Suc i)" using p agree_Suc [of k1 k2 i p] by (meson Suc_leI)
      next
        assume "?R (Suc i)"
        then obtain p where p: "Suc i \<le> p" "p < length k1" "p < length k2" "k1 ! p > k2 ! p" "agree k1 k2 (Suc i) p" by blast
        then show "?R i" using 3 agree_extend [of k1 i k2 p] by (meson Suc_leD)
      qed
      then show ?thesis using step ih by simp
    qed
  qed
qed

lemma compareKeys_eq_m1:
  "compareKeys k1 k2 i = -1 \<longleftrightarrow>
     (\<exists>p. i \<le> p \<and> p < length k1 \<and> p < length k2 \<and> k1 ! p < k2 ! p \<and> agree k1 k2 i p)"
proof (induction k1 k2 i rule: compareKeys.induct)
  case (1 k1 k2 i)
  let ?R = "\<lambda>i. \<exists>p. i \<le> p \<and> p < length k1 \<and> p < length k2 \<and> k1 ! p < k2 ! p \<and> agree k1 k2 i p"
  show ?case
  proof (cases "i < length k1 \<and> i < length k2")
    case False
    have "\<not> ?R i"
    proof
      assume "?R i"
      then obtain p where "i \<le> p" "p < length k1" "p < length k2" by blast
      with False show False by linarith
    qed
    moreover have "\<not> ?R (Suc i)"
    proof
      assume "?R (Suc i)"
      then obtain p where "Suc i \<le> p" "p < length k1" "p < length k2" by blast
      with False show False by linarith
    qed
    moreover have "compareKeys k1 k2 i = -1 \<longleftrightarrow> i < length k1 \<and> compareKeys k1 k2 (Suc i) = -1"
      using False by (cases "i < length k1") (simp_all add: compareKeys_step compareKeys_done)
    moreover have "i < length k1 \<Longrightarrow> compareKeys k1 k2 (Suc i) = -1 \<longleftrightarrow> ?R (Suc i)"
      using "1.IH" False by (simp add: jsGreater_iff jsLess_iff)
    ultimately show ?thesis by blast
  next
    case True
    consider "k1 ! i < k2 ! i" | "k1 ! i > k2 ! i" | "k1 ! i = k2 ! i" by linarith
    then show ?thesis
    proof cases
      case 1
      have "agree k1 k2 i i" by (simp add: agree_def)
      then have "?R i" using 1 True by blast
      then show ?thesis using 1 True by (simp add: compareKeys_step)
    next
      case 2
      have "\<not> ?R i"
      proof
        assume "?R i"
        then obtain p where p: "i \<le> p" "k1 ! p < k2 ! p" "agree k1 k2 i p" by blast
        then have "i < p" using 2 by (cases "p = i") auto
        then show False using p 2 by (auto simp: agree_def)
      qed
      then show ?thesis using 2 True by (simp add: compareKeys_step)
    next
      case 3
      have step: "compareKeys k1 k2 i = compareKeys k1 k2 (Suc i)"
        using 3 True by (simp add: compareKeys_step)
      have ih: "compareKeys k1 k2 (Suc i) = -1 \<longleftrightarrow> ?R (Suc i)"
        using "1.IH" True 3 by (simp add: jsGreater_iff jsLess_iff)
      have "?R i \<longleftrightarrow> ?R (Suc i)"
      proof
        assume "?R i"
        then obtain p where p: "i \<le> p" "p < length k1" "p < length k2" "k1 ! p < k2 ! p" "agree k1 k2 i p" by blast
        then have "i < p" using 3 by (cases "p = i") auto
        then show "?R (Suc i)" using p agree_Suc [of k1 k2 i p] by (meson Suc_leI)
      next
        assume "?R (Suc i)"
        then obtain p where p: "Suc i \<le> p" "p < length k1" "p < length k2" "k1 ! p < k2 ! p" "agree k1 k2 (Suc i) p" by blast
        then show "?R i" using 3 agree_extend [of k1 i k2 p] by (meson Suc_leD)
      qed
      then show ?thesis using step ih by simp
    qed
  qed
qed

text \<open>
  What \<^verbatim>\<open>compareHands\<close> computes, for every two evaluations. It compares the categories
  first, returning 1 (GREATER) or -1 (LESS) on a difference. On equal categories it
  compares the keys element by element over the positions that both keys have, and
  returns at the first position where they differ; it returns 0 (EQUAL) exactly when the
  keys agree on every position that both have. The loop runs over the indices of the
  first key only, and a rank compared with the missing element of a shorter second key
  is neither greater nor less.
\<close>

lemma compareHands_prefix_order:
  "(rank a > rank b \<longrightarrow> compareHands a b = 1) \<and>
   (rank a < rank b \<longrightarrow> compareHands a b = -1) \<and>
   (rank a = rank b \<longrightarrow>
      (compareHands a b = 1 \<longleftrightarrow>
         (\<exists>p. p < length (keyRanks a) \<and> p < length (keyRanks b) \<and>
              keyRanks a ! p > keyRanks b ! p \<and> (\<forall>q<p. keyRanks a ! q = keyRanks b ! q))) \<and>
      (compareHands a b = -1 \<longleftrightarrow>
         (\<exists>p. p < length (keyRanks a) \<and> p < length (keyRanks b) \<and>
              keyRanks a ! p < keyRanks b ! p \<and> (\<forall>q<p. keyRanks a ! q = keyRanks b ! q))) \<and>
      (compareHands a b = 0 \<longleftrightarrow>
         (\<forall>q. q < length (keyRanks a) \<and> q < length (keyRanks b) \<longrightarrow>
              keyRanks a ! q = keyRanks b ! q)))"
  by (simp add: compareHands_def compareKeys_eq_0 compareKeys_eq_1 compareKeys_eq_m1 agree_def)

text \<open>
  C5. The code diverges from the claim: \<^verbatim>\<open>compareHands\<close> returns EQUAL although the keys
  are not both exhausted without a difference. Its loop is bounded by the length of the
  first key alone and reads past the end of a shorter second key. With the hole cards
  9h 9d and 9c Ks on the board 5s 5h 5d 5c 9s both hands are Four of a Kind, with the keys
  [5,9] and [5,9,K] (as rank codes [3,7] and [3,7,11]); the comparison returns EQUAL in
  both directions, although the keys differ at the third position and the second hand
  holds the king as its fifth card. Likewise 7h 5h and 7d 2c on 9s 9h 7s 5d 3c are both
  Two Pair with the keys [9,7,5,3] and [9,7,5,3,2] (as rank codes [7,5,3,1] and
  [7,5,3,1,0]) and compare EQUAL in both directions.
\<close>

theorem compareHands_equal_on_longer_key:
  "evaluateHand [18, 16, 7, 20, 5, 29, 40] = \<lparr>rank = TWO_PAIR, keyRanks = [7, 5, 3, 1]\<rparr> \<and>
   evaluateHand [31, 39, 7, 20, 5, 29, 40] = \<lparr>rank = TWO_PAIR, keyRanks = [7, 5, 3, 1, 0]\<rparr> \<and>
   compareHands (evaluateHand [18, 16, 7, 20, 5, 29, 40]) (evaluateHand [31, 39, 7, 20, 5, 29, 40]) = 0 \<and>
   compareHands (evaluateHand [31, 39, 7, 20, 5, 29, 40]) (evaluateHand [18, 16, 7, 20, 5, 29, 40]) = 0 \<and>
   evaluateHand [20, 33, 3, 16, 29, 42, 7] = \<lparr>rank = FOUR_OF_A_KIND, keyRanks = [3, 7]\<rparr> \<and>
   evaluateHand [46, 11, 3, 16, 29, 42, 7] = \<lparr>rank = FOUR_OF_A_KIND, keyRanks = [3, 7, 11]\<rparr> \<and>
   compareHands (evaluateHand [20, 33, 3, 16, 29, 42, 7]) (evaluateHand [46, 11, 3, 16, 29, 42, 7]) = 0 \<and>
   compareHands (evaluateHand [46, 11, 3, 16, 29, 42, 7]) (evaluateHand [20, 33, 3, 16, 29, 42, 7]) = 0"
proof -
  have two_pair:
    "evaluateHand [18, 16, 7, 20, 5, 29, 40] = \<lparr>rank = TWO_PAIR, keyRanks = [7, 5, 3, 1]\<rparr>"
    "evaluateHand [31, 39, 7, 20, 5, 29, 40] = \<lparr>rank = TWO_PAIR, keyRanks = [7, 5, 3, 1, 0]\<rparr>"
    by code_simp+
  have quads:
    "evaluateHand [20, 33, 3, 16, 29, 42, 7] = \<lparr>rank = FOUR_OF_A_KIND, keyRanks = [3, 7]\<rparr>"
    "evaluateHand [46, 11, 3, 16, 29, 42, 7] = \<lparr>rank = FOUR_OF_A_KIND, keyRanks = [3, 7, 11]\<rparr>"
    by code_simp+
  have equal:
    "compareHands \<lparr>rank = TWO_PAIR, keyRanks = [7, 5, 3, 1]\<rparr> \<lparr>rank = TWO_PAIR, keyRanks = [7, 5, 3, 1, 0]\<rparr> = 0"
    "compareHands \<lparr>rank = TWO_PAIR, keyRanks = [7, 5, 3, 1, 0]\<rparr> \<lparr>rank = TWO_PAIR, keyRanks = [7, 5, 3, 1]\<rparr> = 0"
    "compareHands \<lparr>rank = FOUR_OF_A_KIND, keyRanks = [3, 7]\<rparr> \<lparr>rank = FOUR_OF_A_KIND, keyRanks = [3, 7, 11]\<rparr> = 0"
    "compareHands \<lparr>rank = FOUR_OF_A_KIND, keyRanks = [3, 7, 11]\<rparr> \<lparr>rank = FOUR_OF_A_KIND, keyRanks = [3, 7]\<rparr> = 0"
    by code_simp+
  show ?thesis unfolding two_pair quads using equal by (intro conjI) simp_all
qed

section \<open>Properties of the simulation engine\<close>

declare trialLoop.simps [simp del] dealLoop.simps [simp del]

lemma length_parseCards: "length (parseCards cardStrs) = length cardStrs"
  by (simp add: parseCards_def)

subsection \<open>Rounding to binary64\<close>

lemma pow2_powi: "pow2 e = power_int 2 e"
  by (simp add: pow2_def power_int_def power_one_over [symmetric] inverse_eq_divide)

lemma pow2_pos: "0 < pow2 e"
  by (simp add: pow2_powi)

lemma pow2_add: "pow2 (a + b) = pow2 a * pow2 b"
  by (simp add: pow2_powi power_int_add)

lemma pow2_mono: "a \<le> b \<Longrightarrow> pow2 a \<le> pow2 b"
  by (simp add: pow2_powi power_int_increasing)

lemma pow2_nat: "0 \<le> e \<Longrightarrow> pow2 e = 2 ^ nat e"
  by (simp add: pow2_def)

lemma ilog2_lower:
  assumes "0 < a"
  shows "pow2 (ilog2 a) \<le> a"
proof -
  obtain p q where pq: "quotient_of a = (p, q)" by (cases "quotient_of a")
  have q: "0 < q" using pq by (rule quotient_of_denom_pos)
  have a: "a = of_int p / of_int q" using pq by (rule quotient_of_div)
  have p: "0 < p" using assms q a by (simp add: zero_less_divide_iff)
  let ?d = "bitlen p - bitlen q"
  show ?thesis
  proof (cases "pow2 ?d \<le> a")
    case True
    then show ?thesis by (simp add: ilog2_def pq)
  next
    case False
    have bp: "1 \<le> bitlen p" "1 \<le> bitlen q"
      using p q bitlen_eq_zero_iff [of p] bitlen_eq_zero_iff [of q] bitlen_nonneg [of p] bitlen_nonneg [of q]
      by linarith+
    have lo: "(2::int) ^ nat (bitlen p - 1) \<le> p" using bitlen_bounds [OF p] by simp
    have hi: "q < (2::int) ^ nat (bitlen q)" using bitlen_bounds [OF q] by simp
    have lo': "pow2 (bitlen p - 1) \<le> of_int p"
    proof -
      have "rat_of_int (2 ^ nat (bitlen p - 1)) \<le> of_int p"
        using lo by (simp only: of_int_le_iff)
      then show ?thesis using bp by (simp add: pow2_nat)
    qed
    have hi': "of_int q \<le> pow2 (bitlen q)"
    proof -
      have "rat_of_int q \<le> of_int (2 ^ nat (bitlen q))"
        using hi by (simp only: of_int_le_iff)
      then show ?thesis using bp by (simp add: pow2_nat)
    qed
    have "pow2 (?d - 1) * pow2 (bitlen q) = pow2 (bitlen p - 1)"
      by (simp add: pow2_add [symmetric])
    then have "pow2 (?d - 1) * of_int q \<le> of_int p"
      using hi' lo' pow2_pos [of "?d - 1"]
      by (metis (no_types, opaque_lifting) less_eq_rat_def mult_left_mono order_trans)
    then have "pow2 (?d - 1) \<le> a"
      using q by (simp add: a pos_le_divide_eq)
    then show ?thesis using False by (simp add: ilog2_def pq)
  qed
qed

lemma roundEven_error: "\<bar>of_int (roundEven x) - x\<bar> \<le> 1 / 2"
proof -
  have "of_int \<lfloor>x\<rfloor> \<le> x" "x < of_int \<lfloor>x\<rfloor> + 1" by linarith+
  then show ?thesis by (auto simp: roundEven_def Let_def)
qed


lemma binary64_error:
  assumes "\<bar>x\<bar> \<le> 1024"
  shows "\<exists>y. binary64 x = Finite y \<and> \<bar>y - x\<bar> \<le> 1 / 1000000000"
proof (cases "x = 0")
  case True
  then show ?thesis by (simp add: binary64_def)
next
  case False
  define a where "a = \<bar>x\<bar>"
  define e where "e = max (ilog2 a) (- 1022)"
  define ulp where "ulp = pow2 (e - 52)"
  define y where "y = of_int (roundEven (a / ulp)) * ulp"
  have a: "0 < a" "a \<le> 1024" using False assms by (simp_all add: a_def)
  have ulp: "0 < ulp" by (simp add: ulp_def pow2_pos)
  have "pow2 e \<le> 1024"
  proof (cases "ilog2 a \<le> - 1022")
    case True
    then have "e = - 1022" by (simp add: e_def)
    then have "pow2 e \<le> pow2 0" by (simp add: pow2_mono)
    then show ?thesis by (simp add: pow2_def)
  next
    case False
    then have "e = ilog2 a" by (simp add: e_def)
    then show ?thesis using ilog2_lower [OF a(1)] a(2) by simp
  qed
  moreover have "ulp = pow2 e * pow2 (- 52)" by (simp add: ulp_def pow2_add [symmetric])
  moreover have "pow2 (- 52) = 1 / 2 ^ 52" by (simp add: pow2_def)
  ultimately have small: "ulp \<le> 1024 / 2 ^ 52" by (simp add: field_simps)
  have "\<bar>of_int (roundEven (a / ulp)) - a / ulp\<bar> * ulp \<le> 1 / 2 * ulp"
    using roundEven_error [of "a / ulp"] ulp by (intro mult_right_mono) simp_all
  moreover have "\<bar>of_int (roundEven (a / ulp)) - a / ulp\<bar> * ulp = \<bar>y - a\<bar>"
  proof -
    have "\<bar>of_int (roundEven (a / ulp)) - a / ulp\<bar> * ulp
          = \<bar>(of_int (roundEven (a / ulp)) - a / ulp) * ulp\<bar>"
      using ulp by (simp add: abs_mult)
    also have "(of_int (roundEven (a / ulp)) - a / ulp) * ulp = y - a"
      using ulp by (simp add: y_def field_simps)
    finally show ?thesis .
  qed
  ultimately have err: "\<bar>y - a\<bar> \<le> 1 / 2 * ulp" by simp
  moreover have "(1024::rat) / 2 ^ 52 \<le> 1 / 1000000000" by simp
  ultimately have err': "\<bar>y - a\<bar> \<le> 1 / 1000000000" using small by linarith
  have "ilog2 a < 11"
  proof (rule ccontr)
    assume "\<not> ilog2 a < 11"
    then have "pow2 11 \<le> pow2 (ilog2 a)" by (intro pow2_mono) simp
    moreover have "pow2 11 = 2048" by (simp add: pow2_def)
    ultimately show False using ilog2_lower [OF a(1)] a(2) by linarith
  qed
  then have "e < 11" by (simp add: e_def)
  then have fin: "\<not> (e > 1023 \<or> (e = 1023 \<and> roundEven (a / ulp) = 2 ^ 53))"
    by linarith
  have b: "binary64 x = Finite (if x > 0 then y else - y)"
    using False fin
    by (simp add: binary64_def Let_def a_def [symmetric] e_def [symmetric] ulp_def [symmetric]
        y_def [symmetric])
  have "\<bar>(if x > 0 then y else - y) - x\<bar> = \<bar>y - a\<bar>"
    using False by (auto simp: a_def)
  then show ?thesis using b err' by simp
qed

subsection \<open>Rounding to two decimals\<close>

lemma floor_half: "\<bar>of_int \<lfloor>z + 1 / 2\<rfloor> - z\<bar> \<le> 1 / 2" for z :: rat
proof -
  have "of_int \<lfloor>z + 1 / 2\<rfloor> \<le> z + 1 / 2" "z + 1 / 2 < of_int \<lfloor>z + 1 / 2\<rfloor> + 1"
    by linarith+
  then show ?thesis by linarith
qed

lemma hundredths_error: "\<bar>of_int (hundredths x) / 100 - x\<bar> \<le> 1 / 200"
proof (cases "x < 0")
  case True
  then have "hundredths x = - \<lfloor>- x * 100 + 1 / 2\<rfloor>" by (simp only: hundredths_def if_True)
  then have "rat_of_int (hundredths x) = - of_int \<lfloor>- x * 100 + 1 / 2\<rfloor>" by (simp only: of_int_minus)
  then show ?thesis using floor_half [of "- x * 100"] by linarith
next
  case False
  then have "hundredths x = \<lfloor>x * 100 + 1 / 2\<rfloor>" by (simp only: hundredths_def if_False)
  then show ?thesis using floor_half [of "x * 100"] by linarith
qed

lemma percentage_error:
  assumes "0 \<le> q" "q \<le> 1" "binary64 q = Finite a"
  shows "\<exists>P. jsTimes (Finite a) 100 = Finite P \<and> \<bar>P - 100 * q\<bar> \<le> 101 / 1000000000"
proof -
  obtain a' where a': "binary64 q = Finite a'" "\<bar>a' - q\<bar> \<le> 1 / 1000000000"
    using binary64_error [of q] assms by auto
  then have a: "\<bar>a - q\<bar> \<le> 1 / 1000000000" using assms(3) by simp
  have "\<bar>a * 100\<bar> \<le> 1024" using a assms(1,2) by linarith
  then obtain P where P: "binary64 (a * 100) = Finite P" "\<bar>P - a * 100\<bar> \<le> 1 / 1000000000"
    using binary64_error [of "a * 100"] by auto
  have "\<bar>P - 100 * q\<bar> \<le> 101 / 1000000000" using P(2) a by linarith
  then show ?thesis using P(1) by simp
qed

lemma toFixed2_small:
  assumes "\<bar>x\<bar> \<le> 1024"
  shows "toFixed2 (Finite x) = binary64 (of_int (hundredths x) / 100)"
proof -
  have "(1024::rat) < 10 ^ 21" by simp
  then have "\<not> \<bar>x\<bar> \<ge> 10 ^ 21" using assms by linarith
  then show ?thesis by simp
qed

lemma aggregate_computation:
  assumes n: "0 < simulations" and le: "wins c + ties c \<le> nat simulations"
  shows "\<exists>qw W qt T D L.
           binary64 (of_nat (wins c) / of_int simulations) = Finite qw \<and>
           binary64 (qw * 100) = Finite W \<and>
           binary64 (of_nat (ties c) / of_int simulations) = Finite qt \<and>
           binary64 (qt * 100) = Finite T \<and>
           binary64 (100 - W) = Finite D \<and>
           binary64 (D - T) = Finite L \<and>
           aggregate c simulations =
             \<lparr>win = binary64 (of_int (hundredths W) / 100),
              tie = binary64 (of_int (hundredths T) / 100),
              lose = binary64 (of_int (hundredths L) / 100), resultSimulations = simulations\<rparr> \<and>
           \<bar>W - 100 * (of_nat (wins c) / of_int simulations)\<bar> \<le> 101 / 1000000000 \<and>
           \<bar>T - 100 * (of_nat (ties c) / of_int simulations)\<bar> \<le> 101 / 1000000000 \<and>
           \<bar>L - (100 - W - T)\<bar> \<le> 2 / 1000000000 \<and>
           \<bar>rat_of_int (hundredths W) / 100 - W\<bar> \<le> 1 / 200 \<and>
           \<bar>rat_of_int (hundredths T) / 100 - T\<bar> \<le> 1 / 200 \<and>
           \<bar>rat_of_int (hundredths L) / 100 - L\<bar> \<le> 1 / 200 \<and>
           \<bar>hundredths W + hundredths T + hundredths L - 10000\<bar> \<le> 1"
proof -
  define qw :: rat where "qw = of_nat (wins c) / of_int simulations"
  define qt :: rat where "qt = of_nat (ties c) / of_int simulations"
  have npos: "(0::rat) < of_int simulations" using n by simp
  have "int (wins c) \<le> simulations" "int (ties c) \<le> simulations" using le n by linarith+
  then have "(of_nat (wins c) :: rat) \<le> of_int simulations" "(of_nat (ties c) :: rat) \<le> of_int simulations"
    by (metis of_int_le_iff of_int_of_nat_eq)+
  then have q: "0 \<le> qw" "qw \<le> 1" "0 \<le> qt" "qt \<le> 1"
    using npos by (simp_all add: qw_def qt_def)
  have "int (wins c) + int (ties c) \<le> simulations" using le n by linarith
  then have "(of_nat (wins c) :: rat) + of_nat (ties c) \<le> of_int simulations"
    by (metis of_int_add of_int_le_iff of_int_of_nat_eq)
  then have qsum: "qw + qt \<le> 1"
    using npos by (simp add: qw_def qt_def add_divide_distrib [symmetric])
  obtain aw where aw: "binary64 qw = Finite aw" using binary64_error [of qw] q by auto
  obtain aT where aT: "binary64 qt = Finite aT" using binary64_error [of qt] q by auto
  obtain W where W: "jsTimes (Finite aw) 100 = Finite W" "\<bar>W - 100 * qw\<bar> \<le> 101 / 1000000000"
    using percentage_error [OF q(1,2) aw] by blast
  obtain T where T: "jsTimes (Finite aT) 100 = Finite T" "\<bar>T - 100 * qt\<bar> \<le> 101 / 1000000000"
    using percentage_error [OF q(3,4) aT] by blast
  have W': "binary64 (aw * 100) = Finite W" using W(1) by simp
  have T': "binary64 (aT * 100) = Finite T" using T(1) by simp
  have Wb: "\<bar>W\<bar> \<le> 1024" "\<bar>T\<bar> \<le> 1024" using W(2) T(2) q by linarith+
  have "\<bar>100 - W\<bar> \<le> 1024" using W(2) q by linarith
  then obtain D where D: "binary64 (100 - W) = Finite D" "\<bar>D - (100 - W)\<bar> \<le> 1 / 1000000000"
    using binary64_error [of "100 - W"] by auto
  have "\<bar>D - T\<bar> \<le> 1024" using D(2) W(2) T(2) q by linarith
  then obtain L where L: "binary64 (D - T) = Finite L" "\<bar>L - (D - T)\<bar> \<le> 1 / 1000000000"
    using binary64_error [of "D - T"] by auto
  have LWT: "\<bar>L - (100 - W - T)\<bar> \<le> 2 / 1000000000" using L(2) D(2) by linarith
  have Lerr: "\<bar>L - (100 - 100 * qw - 100 * qt)\<bar> \<le> 204 / 1000000000"
    using L(2) D(2) W(2) T(2) by linarith
  have Lb: "\<bar>L\<bar> \<le> 1024" using Lerr q qsum by linarith
  have agg: "aggregate c simulations =
             \<lparr>win = binary64 (of_int (hundredths W) / 100),
              tie = binary64 (of_int (hundredths T) / 100),
              lose = binary64 (of_int (hundredths L) / 100), resultSimulations = simulations\<rparr>"
    using n aw aT W(1) T(1) D(1) L(1) toFixed2_small [OF Wb(1)] toFixed2_small [OF Wb(2)]
      toFixed2_small [OF Lb]
    by (simp add: aggregate_def Let_def jsDivide_def qw_def [symmetric] qt_def [symmetric]
        del: toFixed2.simps jsTimes.simps)
  have ew: "\<bar>of_int (hundredths W) / 100 - 100 * qw\<bar> \<le> 51 / 10000"
    using hundredths_error [of W] W(2) by linarith
  have et: "\<bar>of_int (hundredths T) / 100 - 100 * qt\<bar> \<le> 51 / 10000"
    using hundredths_error [of T] T(2) by linarith
  have el: "\<bar>of_int (hundredths L) / 100 - (100 - 100 * qw - 100 * qt)\<bar> \<le> 51 / 10000"
    using hundredths_error [of L] Lerr by linarith
  have "\<bar>rat_of_int (hundredths W) + of_int (hundredths T) + of_int (hundredths L) - 10000\<bar> < 2"
    using ew et el by linarith
  then have "\<bar>rat_of_int (hundredths W + hundredths T + hundredths L - 10000)\<bar> < rat_of_int 2" by simp
  then have "\<bar>hundredths W + hundredths T + hundredths L - 10000\<bar> < 2"
    by (simp only: of_int_abs [symmetric] of_int_less_iff)
  then have s: "\<bar>hundredths W + hundredths T + hundredths L - 10000\<bar> \<le> 1" by simp
  have "binary64 (of_nat (wins c) / of_int simulations) = Finite aw \<and>
           binary64 (aw * 100) = Finite W \<and>
           binary64 (of_nat (ties c) / of_int simulations) = Finite aT \<and>
           binary64 (aT * 100) = Finite T \<and>
           binary64 (100 - W) = Finite D \<and>
           binary64 (D - T) = Finite L \<and>
           aggregate c simulations =
             \<lparr>win = binary64 (of_int (hundredths W) / 100),
              tie = binary64 (of_int (hundredths T) / 100),
              lose = binary64 (of_int (hundredths L) / 100), resultSimulations = simulations\<rparr> \<and>
           \<bar>W - 100 * (of_nat (wins c) / of_int simulations)\<bar> \<le> 101 / 1000000000 \<and>
           \<bar>T - 100 * (of_nat (ties c) / of_int simulations)\<bar> \<le> 101 / 1000000000 \<and>
           \<bar>L - (100 - W - T)\<bar> \<le> 2 / 1000000000 \<and>
           \<bar>rat_of_int (hundredths W) / 100 - W\<bar> \<le> 1 / 200 \<and>
           \<bar>rat_of_int (hundredths T) / 100 - T\<bar> \<le> 1 / 200 \<and>
           \<bar>rat_of_int (hundredths L) / 100 - L\<bar> \<le> 1 / 200 \<and>
           \<bar>hundredths W + hundredths T + hundredths L - 10000\<bar> \<le> 1"
    using aw [unfolded qw_def] W' aT [unfolded qt_def] T' D(1) L(1) agg
      W(2) [unfolded qw_def] T(2) [unfolded qt_def] LWT
      hundredths_error [of W] hundredths_error [of T] hundredths_error [of L] s
    by (intro conjI)
  then show ?thesis by blast
qed

subsection \<open>What the trials do to the counters and to the machine\<close>

lemma shuffleLoop_machine:
  "snd (shuffleLoop random k (xs, m)) = m\<lparr>randomCalls := randomCalls m + k\<rparr>"
  by (induction k arbitrary: xs m) (simp_all add: Let_def)

lemma shuffleLoop_length:
  "length (fst (shuffleLoop random k (xs, m))) = length xs"
  by (induction k arbitrary: xs m) (simp_all add: Let_def swap_def)

lemma shuffleLoop_mset:
  "k < length xs \<Longrightarrow> mset (fst (shuffleLoop random k (xs, m))) = mset xs"
proof (induction k arbitrary: xs m)
  case 0
  then show ?case by simp
next
  case (Suc k)
  let ?j = "random (randomCalls m) mod (Suc k + 1)"
  have "?j < Suc k + 1" by simp
  then have j: "?j < length xs" using Suc.prems by linarith
  have "mset (swap (Suc k) ?j xs) = mset xs"
    using Suc.prems j by (simp add: swap_def mset_swap)
  moreover have "k < length (swap (Suc k) ?j xs)" using Suc.prems by (simp add: swap_def)
  ultimately show ?case using Suc.IH [of "swap (Suc k) ?j xs"] by (simp add: Let_def)
qed

lemma shuffleArray_permutes:
  "mset (fst (shuffleArray random array m)) = mset array"
proof (cases "array = []")
  case True
  then show ?thesis by (simp add: shuffleArray_def)
next
  case False
  then have "length array - 1 < length array" by simp
  then show ?thesis unfolding shuffleArray_def by (rule shuffleLoop_mset)
qed

lemma shuffleArray_machine:
  "snd (shuffleArray random array m) =
     m\<lparr>randomCalls := randomCalls m + (length array - 1), shuffleCalls := shuffleCalls m + 1\<rparr>"
  by (simp add: shuffleArray_def shuffleLoop_machine)

lemma updateCounters_bound:
  "wins (updateCounters flags c) + ties (updateCounters flags c) \<le> wins c + ties c + 1"
  by (cases flags) (simp add: updateCounters_def)

lemma trial_unfold:
  "trial random my comm deck opp (c, m) =
     (let shuffled = fst (shuffleArray random deck m);
          dealt = dealLoop shuffled opp 0 ([], 0);
          final = comm @ slice shuffled (snd dealt) (snd dealt + (5 - length comm))
      in (updateCounters
            (compareOpponents (evaluateHand (my @ final)) final (fst dealt) (True, False)) c,
          (snd (shuffleArray random deck m))\<lparr>trialsRun := trialsRun (snd (shuffleArray random deck m)) + 1\<rparr>))"
  by (simp add: trial_def Let_def case_prod_beta)



lemma trial_counters:
  "wins (fst (trial random my comm deck opp s)) + ties (fst (trial random my comm deck opp s))
     \<le> wins (fst s) + ties (fst s) + 1"
proof -
  obtain c m where s: "s = (c, m)" by (cases s)
  show ?thesis unfolding s trial_unfold Let_def fst_conv by (rule updateCounters_bound)
qed

lemma trial_machine:
  "snd (trial random my comm deck opp s) =
     (snd s)\<lparr>randomCalls := randomCalls (snd s) + (length deck - 1),
             shuffleCalls := shuffleCalls (snd s) + 1,
             trialsRun := trialsRun (snd s) + 1\<rparr>"
proof -
  obtain c m where s: "s = (c, m)" by (cases s)
  show ?thesis unfolding s trial_unfold Let_def snd_conv shuffleArray_machine by simp
qed

lemma trialLoop_counters:
  "wins (fst (trialLoop random my comm deck opp n i s)) +
   ties (fst (trialLoop random my comm deck opp n i s))
     \<le> wins (fst s) + ties (fst s) + (nat n - i)"
proof (induction random my comm deck opp n i s rule: trialLoop.induct)
  case (1 random my comm deck opp n i s)
  show ?case
  proof (cases "int i < n")
    case False
    then show ?thesis by (subst (1 2) trialLoop.simps) simp
  next
    case True
    have step: "trialLoop random my comm deck opp n i s =
          trialLoop random my comm deck opp n (i + 1) (trial random my comm deck opp s)"
      using True by (subst trialLoop.simps) simp
    have "nat n - (i + 1) + 1 = nat n - i" using True by linarith
    then show ?thesis
      unfolding step
      using "1.IH" [OF True] trial_counters [of random my comm deck opp s] by linarith
  qed
qed

lemma trialLoop_machine:
  "snd (trialLoop random my comm deck opp n i s) =
     (snd s)\<lparr>randomCalls := randomCalls (snd s) + (nat n - i) * (length deck - 1),
             shuffleCalls := shuffleCalls (snd s) + (nat n - i),
             trialsRun := trialsRun (snd s) + (nat n - i)\<rparr>"
proof (induction random my comm deck opp n i s rule: trialLoop.induct)
  case (1 random my comm deck opp n i s)
  show ?case
  proof (cases "int i < n")
    case False
    then have "nat n - i = 0" by linarith
    then show ?thesis using False by (subst trialLoop.simps) simp
  next
    case True
    define k where "k = nat n - (i + 1)"
    have e: "nat n - i = Suc k" using True by (simp add: k_def)
    have step: "trialLoop random my comm deck opp n i s =
          trialLoop random my comm deck opp n (i + 1) (trial random my comm deck opp s)"
      using True by (subst trialLoop.simps) simp
    have ih: "snd (trialLoop random my comm deck opp n (i + 1) (trial random my comm deck opp s)) =
      (snd (trial random my comm deck opp s))
        \<lparr>randomCalls := randomCalls (snd (trial random my comm deck opp s)) + k * (length deck - 1),
         shuffleCalls := shuffleCalls (snd (trial random my comm deck opp s)) + k,
         trialsRun := trialsRun (snd (trial random my comm deck opp s)) + k\<rparr>"
      using "1.IH" [OF True] by (simp only: k_def)
    show ?thesis unfolding step ih e trial_machine by simp
  qed
qed

lemma calculatePokerOdds_returns:
  assumes "length myCards = 2" "length communityCards \<le> 5" "1 \<le> opponentCount" "opponentCount \<le> 8"
    and "simulations \<le> 2 ^ 53"
    and "\<not> (0 < simulations \<and> CodeNaN \<in> set (parseCards myCards @ parseCards communityCards))"
  shows "\<exists>c. c = fst (trialLoop random (codes (parseCards myCards)) (codes (parseCards communityCards))
                    (withoutKnown (parseCards myCards @ parseCards communityCards) fullDeck)
                    opponentCount simulations 0 (\<lparr>wins = 0, ties = 0\<rparr>, m)) \<and>
           calculatePokerOdds random m myCards communityCards opponentCount simulations =
           Returned (aggregate c simulations)
             (m\<lparr>randomCalls := randomCalls m + nat simulations *
                  (length (withoutKnown (parseCards myCards @ parseCards communityCards) fullDeck) - 1),
                shuffleCalls := shuffleCalls m + nat simulations,
                trialsRun := trialsRun m + nat simulations\<rparr>) \<and>
           wins c + ties c \<le> nat simulations"
proof -
  define deck where
    "deck = withoutKnown (parseCards myCards @ parseCards communityCards) fullDeck"
  define s where
    "s = trialLoop random (codes (parseCards myCards)) (codes (parseCards communityCards))
              deck opponentCount simulations 0 (\<lparr>wins = 0, ties = 0\<rparr>, m)"
  have c: "wins (fst s) + ties (fst s) \<le> nat simulations"
    using trialLoop_counters [of random "codes (parseCards myCards)"
        "codes (parseCards communityCards)" deck opponentCount simulations 0
        "(\<lparr>wins = 0, ties = 0\<rparr>, m)"]
    by (simp add: s_def)
  have mach: "snd s = m\<lparr>randomCalls := randomCalls m + nat simulations * (length deck - 1),
                shuffleCalls := shuffleCalls m + nat simulations,
                trialsRun := trialsRun m + nat simulations\<rparr>"
    unfolding s_def trialLoop_machine by simp
  have call: "calculatePokerOdds random m myCards communityCards opponentCount simulations =
          Returned (aggregate (fst s) simulations) (snd s)"
    unfolding calculatePokerOdds_def Let_def deck_def [symmetric] s_def [symmetric]
    using assms by (simp add: length_parseCards case_prod_beta)
  have eq: "fst s = fst (trialLoop random (codes (parseCards myCards)) (codes (parseCards communityCards))
                    deck opponentCount simulations 0 (\<lparr>wins = 0, ties = 0\<rparr>, m))"
    by (simp only: s_def)
  have "fst s = fst (trialLoop random (codes (parseCards myCards)) (codes (parseCards communityCards))
                    deck opponentCount simulations 0 (\<lparr>wins = 0, ties = 0\<rparr>, m)) \<and>
           calculatePokerOdds random m myCards communityCards opponentCount simulations =
           Returned (aggregate (fst s) simulations)
             (m\<lparr>randomCalls := randomCalls m + nat simulations * (length deck - 1),
                shuffleCalls := shuffleCalls m + nat simulations,
                trialsRun := trialsRun m + nat simulations\<rparr>) \<and>
           wins (fst s) + ties (fst s) \<le> nat simulations"
    using eq call [unfolded mach] c by (intro conjI)
  then show ?thesis unfolding deck_def by (rule exI)
qed

lemma length_withoutKnown:
  "length deck - length knownCards \<le> length (withoutKnown knownCards deck)" if "distinct deck"
proof -
  let ?known = "filter (\<lambda>c. Code c \<in> set knownCards) deck"
  have "Code ` set ?known \<subseteq> set knownCards" by auto
  then have "card (Code ` set ?known) \<le> card (set knownCards)" by (intro card_mono) auto
  moreover have "card (Code ` set ?known) = card (set ?known)"
    by (intro card_image) (simp add: inj_on_def)
  moreover have "card (set ?known) = length ?known"
    using that by (intro distinct_card) simp
  moreover have "card (set knownCards) \<le> length knownCards" by (rule card_length)
  ultimately have "length ?known \<le> length knownCards" by linarith
  moreover have "length deck = length (withoutKnown knownCards deck) + length ?known"
    using sum_length_filter_compl [of "\<lambda>c. Code c \<notin> set knownCards" deck]
    by (simp add: withoutKnown_def)
  ultimately show ?thesis by linarith
qed

lemma remainingDeck_large:
  "length knownCards \<le> 7 \<Longrightarrow> 45 \<le> length (withoutKnown knownCards fullDeck)"
  using length_withoutKnown [of fullDeck knownCards] by (simp add: fullDeck_def)

text \<open>
  C6, as amended. For every call with valid counts, recognized cards and a positive trial
  count, with \<open>c\<close> the counters after the trials, the percentages are computed in
  binary64 arithmetic, every operation rounded to nearest: the win percentage \<open>W\<close> is
  (wins / trials) * 100, the tie percentage \<open>T\<close> is (ties / trials) * 100, and the lose
  percentage \<open>L\<close> is derived as (100 - W) - T and not counted. Each reported value is the
  percentage rounded to 2 decimal places: the binary64 number nearest to the multiple of
  0.01 that is nearest to the percentage. \<open>W\<close> and \<open>T\<close> are within 0.000000101 of
  100 * wins / trials and 100 * ties / trials, and \<open>L\<close> within 0.000000002 of
  100 - W - T. The three reported multiples of 0.01 sum to 99.99, 100.00 or 100.01: the
  sum is 100 up to the rounding of each reported value, not always exactly. The call
  returns after one shuffle per trial.
\<close>

theorem percentages_rounded_sum:
  assumes "length myCards = 2" "length communityCards \<le> 5" "1 \<le> opponentCount" "opponentCount \<le> 8"
    and "0 < simulations" "simulations \<le> 2 ^ 53"
    and "CodeNaN \<notin> set (parseCards myCards @ parseCards communityCards)"
  shows "\<exists>c qw W qt T D L.
           c = fst (trialLoop random (codes (parseCards myCards)) (codes (parseCards communityCards))
                    (withoutKnown (parseCards myCards @ parseCards communityCards) fullDeck)
                    opponentCount simulations 0 (\<lparr>wins = 0, ties = 0\<rparr>, m)) \<and>
           wins c + ties c \<le> nat simulations \<and>
           binary64 (of_nat (wins c) / of_int simulations) = Finite qw \<and>
           binary64 (qw * 100) = Finite W \<and>
           binary64 (of_nat (ties c) / of_int simulations) = Finite qt \<and>
           binary64 (qt * 100) = Finite T \<and>
           binary64 (100 - W) = Finite D \<and>
           binary64 (D - T) = Finite L \<and>
           calculatePokerOdds random m myCards communityCards opponentCount simulations =
             Returned
               \<lparr>win = binary64 (of_int (hundredths W) / 100),
                tie = binary64 (of_int (hundredths T) / 100),
                lose = binary64 (of_int (hundredths L) / 100), resultSimulations = simulations\<rparr>
               (m\<lparr>randomCalls := randomCalls m + nat simulations *
                    (length (withoutKnown (parseCards myCards @ parseCards communityCards) fullDeck) - 1),
                  shuffleCalls := shuffleCalls m + nat simulations,
                  trialsRun := trialsRun m + nat simulations\<rparr>) \<and>
           \<bar>W - 100 * (of_nat (wins c) / of_int simulations)\<bar> \<le> 101 / 1000000000 \<and>
           \<bar>T - 100 * (of_nat (ties c) / of_int simulations)\<bar> \<le> 101 / 1000000000 \<and>
           \<bar>L - (100 - W - T)\<bar> \<le> 2 / 1000000000 \<and>
           \<bar>rat_of_int (hundredths W) / 100 - W\<bar> \<le> 1 / 200 \<and>
           \<bar>rat_of_int (hundredths T) / 100 - T\<bar> \<le> 1 / 200 \<and>
           \<bar>rat_of_int (hundredths L) / 100 - L\<bar> \<le> 1 / 200 \<and>
           \<bar>hundredths W + hundredths T + hundredths L - 10000\<bar> \<le> 1"
proof -
  obtain c where c:
    "c = fst (trialLoop random (codes (parseCards myCards)) (codes (parseCards communityCards))
                    (withoutKnown (parseCards myCards @ parseCards communityCards) fullDeck)
                    opponentCount simulations 0 (\<lparr>wins = 0, ties = 0\<rparr>, m))"
    "calculatePokerOdds random m myCards communityCards opponentCount simulations =
           Returned (aggregate c simulations)
             (m\<lparr>randomCalls := randomCalls m + nat simulations *
                  (length (withoutKnown (parseCards myCards @ parseCards communityCards) fullDeck) - 1),
                shuffleCalls := shuffleCalls m + nat simulations,
                trialsRun := trialsRun m + nat simulations\<rparr>)"
    "wins c + ties c \<le> nat simulations"
    using calculatePokerOdds_returns [OF assms(1-4) assms(6), of random m] assms(7) by blast
  obtain qw W qt T D L where r:
    "binary64 (of_nat (wins c) / of_int simulations) = Finite qw"
    "binary64 (qw * 100) = Finite W"
    "binary64 (of_nat (ties c) / of_int simulations) = Finite qt"
    "binary64 (qt * 100) = Finite T"
    "binary64 (100 - W) = Finite D"
    "binary64 (D - T) = Finite L"
    "aggregate c simulations =
       \<lparr>win = binary64 (of_int (hundredths W) / 100),
        tie = binary64 (of_int (hundredths T) / 100),
        lose = binary64 (of_int (hundredths L) / 100), resultSimulations = simulations\<rparr>"
    "\<bar>W - 100 * (of_nat (wins c) / of_int simulations)\<bar> \<le> 101 / 1000000000"
    "\<bar>T - 100 * (of_nat (ties c) / of_int simulations)\<bar> \<le> 101 / 1000000000"
    "\<bar>L - (100 - W - T)\<bar> \<le> 2 / 1000000000"
    "\<bar>rat_of_int (hundredths W) / 100 - W\<bar> \<le> 1 / 200"
    "\<bar>rat_of_int (hundredths T) / 100 - T\<bar> \<le> 1 / 200"
    "\<bar>rat_of_int (hundredths L) / 100 - L\<bar> \<le> 1 / 200"
    "\<bar>hundredths W + hundredths T + hundredths L - 10000\<bar> \<le> 1"
    using aggregate_computation [OF assms(5) c(3)] by blast
  show ?thesis
    using c(1) c(3) r(1-6) c(2) [unfolded r(7)] r(8-14) by blast
qed

theorem percentages_rounded_sum_witness:
  "\<exists>c qw W qt T D L.
     c = fst (trialLoop (\<lambda>k. k) (codes (parseCards [''As'', ''Kd''])) (codes (parseCards []))
              (withoutKnown (parseCards [''As'', ''Kd''] @ parseCards []) fullDeck)
              1 5000 0 (\<lparr>wins = 0, ties = 0\<rparr>, \<lparr>randomCalls = 0, shuffleCalls = 0, trialsRun = 0\<rparr>)) \<and>
     wins c + ties c \<le> nat 5000 \<and>
     binary64 (of_nat (wins c) / of_int 5000) = Finite qw \<and>
     binary64 (qw * 100) = Finite W \<and>
     binary64 (of_nat (ties c) / of_int 5000) = Finite qt \<and>
     binary64 (qt * 100) = Finite T \<and>
     binary64 (100 - W) = Finite D \<and>
     binary64 (D - T) = Finite L \<and>
     calculatePokerOdds (\<lambda>k. k) \<lparr>randomCalls = 0, shuffleCalls = 0, trialsRun = 0\<rparr>
         [''As'', ''Kd''] [] 1 5000 =
       Returned
         \<lparr>win = binary64 (of_int (hundredths W) / 100),
          tie = binary64 (of_int (hundredths T) / 100),
          lose = binary64 (of_int (hundredths L) / 100), resultSimulations = 5000\<rparr>
         (\<lparr>randomCalls = 0, shuffleCalls = 0, trialsRun = 0\<rparr>
            \<lparr>randomCalls := randomCalls \<lparr>randomCalls = 0, shuffleCalls = 0, trialsRun = 0\<rparr> + nat 5000 *
                 (length (withoutKnown (parseCards [''As'', ''Kd''] @ parseCards []) fullDeck) - 1),
               shuffleCalls := shuffleCalls \<lparr>randomCalls = 0, shuffleCalls = 0, trialsRun = 0\<rparr> + nat 5000,
               trialsRun := trialsRun \<lparr>randomCalls = 0, shuffleCalls = 0, trialsRun = 0\<rparr> + nat 5000\<rparr>) \<and>
     \<bar>W - 100 * (of_nat (wins c) / of_int 5000)\<bar> \<le> 101 / 1000000000 \<and>
     \<bar>T - 100 * (of_nat (ties c) / of_int 5000)\<bar> \<le> 101 / 1000000000 \<and>
     \<bar>L - (100 - W - T)\<bar> \<le> 2 / 1000000000 \<and>
     \<bar>rat_of_int (hundredths W) / 100 - W\<bar> \<le> 1 / 200 \<and>
     \<bar>rat_of_int (hundredths T) / 100 - T\<bar> \<le> 1 / 200 \<and>
     \<bar>rat_of_int (hundredths L) / 100 - L\<bar> \<le> 1 / 200 \<and>
     \<bar>hundredths W + hundredths T + hundredths L - 10000\<bar> \<le> 1"
proof -
  have p: "parseCards [''As'', ''Kd''] = [Code 12, Code 37]" "parseCards [] = []"
    by (simp_all add: parseCards_def parseCard_def elemAt_def lookup_def RANK_MAP_def SUIT_MAP_def)
  have h: "length [''As'', ''Kd''] = 2" "length ([] :: string list) \<le> 5" "(1::int) \<le> 1" "(1::int) \<le> 8"
    "(0::int) < 5000" "(5000::int) \<le> 2 ^ 53"
    "CodeNaN \<notin> set (parseCards [''As'', ''Kd''] @ parseCards [])"
    by (simp_all add: p)
  show ?thesis by (rule percentages_rounded_sum [OF h])
qed

text \<open>
  C6 as stated fails: the call with hole cards 5s 4h, the board As Ah Ad Ac Ks, one
  opponent, three trials and the random source \<open>k + 2\<close> deals the opponent 2s 5d (a win),
  then 5d 4s (a tie), then Jc 3s (a loss). All three percentages are 33.33..., each is
  reported as the binary64 number nearest to 33.33, and the reported values sum to
  99.99, not to 100.
\<close>

theorem percentages_sum_9999:
  "calculatePokerOdds (\<lambda>k. k + 2)
       \<lparr>randomCalls = 0, shuffleCalls = 0, trialsRun = 0\<rparr>
       [''5s'', ''4h''] [''As'', ''Ah'', ''Ad'', ''Ac'', ''Ks''] 1 3 =
     Returned
       \<lparr>win = Finite (2345390243441541 / 70368744177664),
        tie = Finite (2345390243441541 / 70368744177664),
        lose = Finite (2345390243441541 / 70368744177664), resultSimulations = 3\<rparr>
       \<lparr>randomCalls = 132, shuffleCalls = 3, trialsRun = 3\<rparr> \<and>
   binary64 (3333 / 100) = Finite (2345390243441541 / 70368744177664) \<and>
   (2345390243441541 / 70368744177664 :: rat) * 3 \<noteq> 100"
proof -
  let ?r = "\<lambda>k::nat. k + 2"
  let ?my = "[3, 15 :: nat]"
  let ?board = "[12, 25, 38, 51, 11 :: nat]"
  let ?deck = "[0, 1, 2, 4, 5, 6, 7, 8, 9, 10, 13, 14, 16, 17, 18, 19, 20, 21, 22, 23, 24,
    26, 27, 28, 29, 30, 31, 32, 33, 34, 35, 36, 37, 39, 40, 41, 42, 43, 44,
    45, 46, 47, 48, 49, 50 :: nat]"
  let ?s1 = "[0, 29, 48, 42, 40, 46, 35, 33, 37, 32, 30, 34, 44, 31, 50, 36, 39, 41,
    43, 45, 47, 49, 1, 28, 27, 26, 24, 23, 22, 21, 20, 19, 18, 17, 16, 14,
    13, 10, 9, 8, 7, 6, 5, 4, 2 :: nat]"
  let ?s2 = "[29, 2, 33, 22, 48, 9, 16, 31, 46, 18, 40, 37, 0, 24, 42, 39, 7, 35, 43,
    45, 36, 49, 27, 41, 20, 44, 13, 47, 5, 50, 34, 32, 30, 28, 26, 23, 21,
    19, 17, 14, 10, 8, 6, 4, 1 :: nat]"
  let ?s3 = "[48, 1, 5, 17, 9, 42, 44, 33, 18, 46, 40, 43, 30, 21, 31, 36, 20, 27, 2,
    41, 47, 37, 24, 34, 13, 6, 50, 28, 23, 45, 14, 8, 49, 39, 35, 32, 29, 26,
    22, 19, 16, 10, 7, 4, 0 :: nat]"
  have parse: "parseCards [''5s'', ''4h''] = [Code 3, Code 15]"
    "parseCards [''As'', ''Ah'', ''Ad'', ''Ac'', ''Ks''] = [Code 12, Code 25, Code 38, Code 51, Code 11]"
    by (simp_all add: parseCards_def parseCard_def elemAt_def lookup_def RANK_MAP_def SUIT_MAP_def)
  have deck: "withoutKnown [Code 3, Code 15, Code 12, Code 25, Code 38, Code 51, Code 11] fullDeck = ?deck"
    by code_simp
  have shuffle1: "shuffleArray ?r ?deck \<lparr>randomCalls = 0, shuffleCalls = 0, trialsRun = 0\<rparr> =
      (?s1, \<lparr>randomCalls = 44, shuffleCalls = 1, trialsRun = 0\<rparr>)"
    by code_simp
  have shuffle2: "shuffleArray ?r ?deck \<lparr>randomCalls = 44, shuffleCalls = 1, trialsRun = 1\<rparr> =
      (?s2, \<lparr>randomCalls = 88, shuffleCalls = 2, trialsRun = 1\<rparr>)"
    by code_simp
  have shuffle3: "shuffleArray ?r ?deck \<lparr>randomCalls = 88, shuffleCalls = 2, trialsRun = 2\<rparr> =
      (?s3, \<lparr>randomCalls = 132, shuffleCalls = 3, trialsRun = 2\<rparr>)"
    by code_simp
  have deal: "dealLoop ?s1 1 0 ([], 0) = ([[0, 29]], 2)" "dealLoop ?s2 1 0 ([], 0) = ([[29, 2]], 2)"
    "dealLoop ?s3 1 0 ([], 0) = ([[48, 1]], 2)"
    by code_simp+
  have none: "slice xs 2 (2 + (5 - length ?board)) = []" for xs :: "nat list"
    by (simp add: slice_def)
  have flags: "compareOpponents (evaluateHand (?my @ ?board)) ?board [[0, 29]] (True, False) = (True, False)"
    "compareOpponents (evaluateHand (?my @ ?board)) ?board [[48, 1]] (True, False) = (False, False)"
    "compareOpponents (evaluateHand (?my @ ?board)) ?board [[29, 2]] (True, False) = (True, True)"
    by code_simp+
  have trial1: "trial ?r ?my ?board ?deck 1
      (\<lparr>wins = 0, ties = 0\<rparr>, \<lparr>randomCalls = 0, shuffleCalls = 0, trialsRun = 0\<rparr>) =
      (\<lparr>wins = 1, ties = 0\<rparr>, \<lparr>randomCalls = 44, shuffleCalls = 1, trialsRun = 1\<rparr>)"
    unfolding trial_unfold Let_def shuffle1 fst_conv snd_conv deal none append_Nil2 flags
    by (simp add: updateCounters_def)
  have trial2: "trial ?r ?my ?board ?deck 1
      (\<lparr>wins = 1, ties = 0\<rparr>, \<lparr>randomCalls = 44, shuffleCalls = 1, trialsRun = 1\<rparr>) =
      (\<lparr>wins = 1, ties = 1\<rparr>, \<lparr>randomCalls = 88, shuffleCalls = 2, trialsRun = 2\<rparr>)"
    unfolding trial_unfold Let_def shuffle2 fst_conv snd_conv deal none append_Nil2 flags
    by (simp add: updateCounters_def)
  have trial3: "trial ?r ?my ?board ?deck 1
      (\<lparr>wins = 1, ties = 1\<rparr>, \<lparr>randomCalls = 88, shuffleCalls = 2, trialsRun = 2\<rparr>) =
      (\<lparr>wins = 1, ties = 1\<rparr>, \<lparr>randomCalls = 132, shuffleCalls = 3, trialsRun = 3\<rparr>)"
    unfolding trial_unfold Let_def shuffle3 fst_conv snd_conv deal none append_Nil2 flags
    by (simp add: updateCounters_def)
  have loop: "trialLoop ?r ?my ?board ?deck 1 3 0
      (\<lparr>wins = 0, ties = 0\<rparr>, \<lparr>randomCalls = 0, shuffleCalls = 0, trialsRun = 0\<rparr>) =
      (\<lparr>wins = 1, ties = 1\<rparr>, \<lparr>randomCalls = 132, shuffleCalls = 3, trialsRun = 3\<rparr>)"
    apply (subst trialLoop.simps, simp only: trial1)
    apply (subst trialLoop.simps, simp only: trial2)
    apply (subst trialLoop.simps, simp only: trial3)
    apply (subst trialLoop.simps)
    apply simp
    done
  have agg: "aggregate \<lparr>wins = 1, ties = 1\<rparr> 3 =
     \<lparr>win = Finite (2345390243441541 / 70368744177664),
      tie = Finite (2345390243441541 / 70368744177664),
      lose = Finite (2345390243441541 / 70368744177664), resultSimulations = 3\<rparr>"
    by code_simp
  have codes: "codes [Code 3, Code 15] = ?my" "codes [Code 12, Code 25, Code 38, Code 51, Code 11] = ?board"
    by (simp_all add: codes_def)
  have call: "calculatePokerOdds ?r \<lparr>randomCalls = 0, shuffleCalls = 0, trialsRun = 0\<rparr>
       [''5s'', ''4h''] [''As'', ''Ah'', ''Ad'', ''Ac'', ''Ks''] 1 3 =
     Returned
       \<lparr>win = Finite (2345390243441541 / 70368744177664),
        tie = Finite (2345390243441541 / 70368744177664),
        lose = Finite (2345390243441541 / 70368744177664), resultSimulations = 3\<rparr>
       \<lparr>randomCalls = 132, shuffleCalls = 3, trialsRun = 3\<rparr>"
    unfolding calculatePokerOdds_def Let_def parse append.simps deck codes loop
    using agg by simp
  have "binary64 (3333 / 100) = Finite (2345390243441541 / 70368744177664)" by code_simp
  moreover have "(2345390243441541 / 70368744177664 :: rat) * 3 \<noteq> 100" by simp
  ultimately show ?thesis using call by (intro conjI)
qed

text \<open>
  The lose percentage comes from the unrounded win and tie percentages, not from the
  counters: with 19997 wins and no tie in 20000 trials the win percentage is a little
  below 99.985 and is reported as 99.98, the lose percentage 100 - W is a little above
  0.015 and is reported as 0.02, where the rounding of 100 * 3 / 20000 would be 0.01.
\<close>

lemma lose_from_unrounded_percentages:
  "aggregate \<lparr>wins = 19997, ties = 0\<rparr> 20000 =
     \<lparr>win = Finite (7035467042882847 / 70368744177664), tie = Finite 0,
      lose = Finite (5764607523034235 / 288230376151711744), resultSimulations = 20000\<rparr> \<and>
   binary64 (9998 / 100) = Finite (7035467042882847 / 70368744177664) \<and>
   binary64 (2 / 100) = Finite (5764607523034235 / 288230376151711744) \<and>
   binary64 (1 / 100) \<noteq> Finite (5764607523034235 / 288230376151711744) \<and>
   (\<exists>x. binary64 (100 * 3 / 20000) = Finite x \<and> toFixed2 (Finite x) = binary64 (1 / 100))"
proof -
  let ?q = "9005848174852781 / 9007199254740992 :: rat"
  let ?W = "7035818886603735 / 70368744177664 :: rat"
  let ?D = "1055531162665 / 70368744177664 :: rat"
  have q: "binary64 (19997 / 20000) = Finite ?q"
    by code_simp
  have W: "binary64 (?q * 100) = Finite ?W"
    by code_simp
  have D: "binary64 (100 - ?W) = Finite ?D"
    by code_simp
  have L: "binary64 (?D - 0) = Finite ?D"
    by code_simp
  have rw: "binary64 (rat_of_int (hundredths ?W) / 100) = Finite (7035467042882847 / 70368744177664)"
    by code_simp
  have rl: "binary64 (rat_of_int (hundredths ?D) / 100) = Finite (5764607523034235 / 288230376151711744)"
    by code_simp
  have small: "\<not> (10 ^ 21 \<le> \<bar>?W\<bar>)" "\<not> (10 ^ 21 \<le> \<bar>?D\<bar>)"
    by simp_all
  have w1: "jsDivide 19997 20000 = Finite ?q"
    unfolding jsDivide_def using q by simp
  have w2: "jsTimes (Finite ?q) 100 = Finite ?W"
    by (simp only: jsTimes.simps W)
  have t1: "jsDivide 0 20000 = Finite 0"
    by (simp add: jsDivide_def binary64_def)
  have t2: "jsTimes (Finite 0) 100 = Finite 0"
    by (simp add: binary64_def)
  have f0: "toFixed2 (Finite 0) = Finite 0"
    by code_simp
  have l1: "jsMinus (Finite 100) (Finite ?W) = Finite ?D"
    by (simp only: jsMinus.simps D)
  have l2: "jsMinus (Finite ?D) (Finite 0) = Finite ?D"
    by (simp only: jsMinus.simps L)
  have f1: "toFixed2 (Finite ?W) = Finite (7035467042882847 / 70368744177664)"
    by (simp only: toFixed2.simps small if_False rw)
  have f2: "toFixed2 (Finite ?D) = Finite (5764607523034235 / 288230376151711744)"
    by (simp only: toFixed2.simps small if_False rl)
  have agg: "aggregate \<lparr>wins = 19997, ties = 0\<rparr> 20000 =
     \<lparr>win = Finite (7035467042882847 / 70368744177664), tie = Finite 0,
      lose = Finite (5764607523034235 / 288230376151711744), resultSimulations = 20000\<rparr>"
    by (simp only: aggregate_def Let_def counters.select_convs w1 w2 t1 t2 l1 l2 f1 f2 f0)
  have a: "binary64 (9998 / 100) = Finite (7035467042882847 / 70368744177664)"
    by code_simp
  have b: "binary64 (2 / 100) = Finite (5764607523034235 / 288230376151711744)"
    by code_simp
  have c: "binary64 (1 / 100) \<noteq> Finite (5764607523034235 / 288230376151711744)"
    by code_simp
  have d: "binary64 (100 * 3 / 20000) = Finite (1080863910568919 / 72057594037927936)"
    by code_simp
  have e: "toFixed2 (Finite (1080863910568919 / 72057594037927936)) = binary64 (1 / 100)"
    by code_simp
  have "\<exists>x. binary64 (100 * 3 / 20000) = Finite x \<and> toFixed2 (Finite x) = binary64 (1 / 100)"
    using d e by blast
  then show ?thesis using agg a b c by (intro conjI)
qed

subsection \<open>The opponent loop\<close>

lemma compareOpponents_isWinner:
  "fst (compareOpponents my community opps (w, t)) \<longleftrightarrow>
     w \<and> (\<forall>h \<in> set opps. 0 \<le> compareHands my (evaluateHand (h @ community)))"
  by (induction opps arbitrary: t) (auto simp: Let_def)

lemma compareOpponents_hasTie:
  "\<forall>h \<in> set opps. 0 \<le> compareHands my (evaluateHand (h @ community)) \<Longrightarrow>
   snd (compareOpponents my community opps (w, t)) \<longleftrightarrow>
     t \<or> (\<exists>h \<in> set opps. compareHands my (evaluateHand (h @ community)) = 0)"
  by (induction opps arbitrary: t) (auto simp: Let_def)

text \<open>
  The loop over the opponents, in terms of the values of \<^verbatim>\<open>compareHands\<close>: the flag
  \<^verbatim>\<open>isWinner\<close> stays set exactly when the comparison with every opponent is not negative;
  then \<^verbatim>\<open>hasTie\<close> is set exactly when the comparison with some opponent is 0, so the exit
  on the first negative comparison hides no tie of a trial without one. The counters
  follow the flags: a tie, a win, or no change. The last part states it for the body of
  the trial loop, with the opponents' hands and the community cards dealt from the
  shuffled deck.
\<close>

lemma trial_counts_by_comparison:
  "(fst (compareOpponents myBestHand community opps (True, False)) \<longleftrightarrow>
      (\<forall>h \<in> set opps. 0 \<le> compareHands myBestHand (evaluateHand (h @ community)))) \<and>
   ((\<forall>h \<in> set opps. 0 \<le> compareHands myBestHand (evaluateHand (h @ community))) \<longrightarrow>
      (snd (compareOpponents myBestHand community opps (True, False)) \<longleftrightarrow>
         (\<exists>h \<in> set opps. compareHands myBestHand (evaluateHand (h @ community)) = 0))) \<and>
   updateCounters (compareOpponents myBestHand community opps (True, False)) c =
     (if \<forall>h \<in> set opps. 0 \<le> compareHands myBestHand (evaluateHand (h @ community))
      then if \<exists>h \<in> set opps. compareHands myBestHand (evaluateHand (h @ community)) = 0
           then c\<lparr>ties := ties c + 1\<rparr> else c\<lparr>wins := wins c + 1\<rparr>
      else c) \<and>
   fst (trial random myCards communityCards deck opponentCount (c, m)) =
     (let shuffled = fst (shuffleArray random deck m);
          dealt = dealLoop shuffled opponentCount 0 ([], 0);
          final = communityCards @
                  slice shuffled (snd dealt) (snd dealt + (5 - length communityCards));
          mine = evaluateHand (myCards @ final)
      in if \<forall>h \<in> set (fst dealt). 0 \<le> compareHands mine (evaluateHand (h @ final))
         then if \<exists>h \<in> set (fst dealt). compareHands mine (evaluateHand (h @ final)) = 0
              then c\<lparr>ties := ties c + 1\<rparr> else c\<lparr>wins := wins c + 1\<rparr>
         else c)"
proof -
  have flags: "updateCounters (compareOpponents b f opps' (True, False)) c =
     (if \<forall>h \<in> set opps'. 0 \<le> compareHands b (evaluateHand (h @ f))
      then if \<exists>h \<in> set opps'. compareHands b (evaluateHand (h @ f)) = 0
           then c\<lparr>ties := ties c + 1\<rparr> else c\<lparr>wins := wins c + 1\<rparr>
      else c)" for b f opps'
  proof -
    let ?flags = "compareOpponents b f opps' (True, False)"
    let ?all = "\<forall>h \<in> set opps'. 0 \<le> compareHands b (evaluateHand (h @ f))"
    have w: "fst ?flags \<longleftrightarrow> ?all" by (simp add: compareOpponents_isWinner)
    have t: "?all \<Longrightarrow> snd ?flags \<longleftrightarrow> (\<exists>h \<in> set opps'. compareHands b (evaluateHand (h @ f)) = 0)"
      by (simp add: compareOpponents_hasTie)
    show ?thesis using w t by (cases ?flags) (auto simp: updateCounters_def)
  qed
  have "fst (compareOpponents myBestHand community opps (True, False)) \<longleftrightarrow>
      (\<forall>h \<in> set opps. 0 \<le> compareHands myBestHand (evaluateHand (h @ community)))"
    by (simp add: compareOpponents_isWinner)
  moreover have "(\<forall>h \<in> set opps. 0 \<le> compareHands myBestHand (evaluateHand (h @ community))) \<longrightarrow>
      (snd (compareOpponents myBestHand community opps (True, False)) \<longleftrightarrow>
         (\<exists>h \<in> set opps. compareHands myBestHand (evaluateHand (h @ community)) = 0))"
    by (simp add: compareOpponents_hasTie)
  moreover note flags [of myBestHand community opps]
  moreover have "fst (trial random myCards communityCards deck opponentCount (c, m)) =
     (let shuffled = fst (shuffleArray random deck m);
          dealt = dealLoop shuffled opponentCount 0 ([], 0);
          final = communityCards @
                  slice shuffled (snd dealt) (snd dealt + (5 - length communityCards));
          mine = evaluateHand (myCards @ final)
      in if \<forall>h \<in> set (fst dealt). 0 \<le> compareHands mine (evaluateHand (h @ final))
         then if \<exists>h \<in> set (fst dealt). compareHands mine (evaluateHand (h @ final)) = 0
              then c\<lparr>ties := ties c + 1\<rparr> else c\<lparr>wins := wins c + 1\<rparr>
         else c)"
    unfolding trial_unfold Let_def fst_conv flags ..
  ultimately show ?thesis by (intro conjI)
qed

text \<open>
  C2. The code diverges from the claim, by the defect of \<^verbatim>\<open>compareHands\<close> shown above
  (the loop bounded by the length of the first key alone). The call with the hole cards
  9h 9d, the board 5s 5h 5d 5c 9s, one opponent and one trial, the random source
  choosing the index 0 at \<open>i = 39\<close>, the index 1 at \<open>i = 9\<close> and the index \<open>i\<close>
  everywhere else, shuffles 9c and Ks to the front of the deck and deals them to the
  opponent. Both hands are Four of a Kind, with the keys [5,9] for the subject and
  [5,9,K] for the opponent. The opponent's evaluation does not equal the subject's, and
  the subject's evaluation is the smaller one; yet both flags are set, the trial is
  counted as a tie, and the call reports 100 percent ties.
\<close>

theorem kicker_loss_counted_as_tie:
  "evaluateHand [20, 33, 3, 16, 29, 42, 7] = \<lparr>rank = FOUR_OF_A_KIND, keyRanks = [3, 7]\<rparr> \<and>
   evaluateHand [46, 11, 3, 16, 29, 42, 7] = \<lparr>rank = FOUR_OF_A_KIND, keyRanks = [3, 7, 11]\<rparr> \<and>
   evaluateHand [46, 11, 3, 16, 29, 42, 7] \<noteq> evaluateHand [20, 33, 3, 16, 29, 42, 7] \<and>
   evaluationLess (evaluateHand [20, 33, 3, 16, 29, 42, 7]) (evaluateHand [46, 11, 3, 16, 29, 42, 7]) \<and>
   compareOpponents (evaluateHand [20, 33, 3, 16, 29, 42, 7]) [3, 16, 29, 42, 7] [[46, 11]] (True, False) =
     (True, True) \<and>
   trial (\<lambda>k. if k = 5 then 0 else if k = 35 then 1 else 44 - k) [20, 33] [3, 16, 29, 42, 7]
       (withoutKnown [Code 20, Code 33, Code 3, Code 16, Code 29, Code 42, Code 7] fullDeck) 1
       (\<lparr>wins = 0, ties = 0\<rparr>, \<lparr>randomCalls = 0, shuffleCalls = 0, trialsRun = 0\<rparr>) =
     (\<lparr>wins = 0, ties = 1\<rparr>, \<lparr>randomCalls = 44, shuffleCalls = 1, trialsRun = 1\<rparr>) \<and>
   calculatePokerOdds (\<lambda>k. if k = 5 then 0 else if k = 35 then 1 else 44 - k)
       \<lparr>randomCalls = 0, shuffleCalls = 0, trialsRun = 0\<rparr>
       [''9h'', ''9d''] [''5s'', ''5h'', ''5d'', ''5c'', ''9s''] 1 1 =
     Returned \<lparr>win = Finite 0, tie = Finite 100, lose = Finite 0, resultSimulations = 1\<rparr>
       \<lparr>randomCalls = 44, shuffleCalls = 1, trialsRun = 1\<rparr>"
proof -
  let ?r = "\<lambda>k::nat. if k = 5 then 0 else if k = 35 then 1 else 44 - k"
  let ?my = "[20, 33 :: nat]"
  let ?board = "[3, 16, 29, 42, 7 :: nat]"
  let ?deck = "[0, 1, 2, 4, 5, 6, 8, 9, 10, 11, 12, 13, 14, 15, 17, 18, 19, 21, 22, 23, 24, 25,
    26, 27, 28, 30, 31, 32, 34, 35, 36, 37, 38, 39, 40, 41, 43, 44, 45, 46, 47, 48, 49, 50,
    51 :: nat]"
  let ?s = "[46, 11, 2, 4, 5, 6, 8, 9, 10, 1, 12, 13, 14, 15, 17, 18, 19, 21, 22, 23, 24, 25,
    26, 27, 28, 30, 31, 32, 34, 35, 36, 37, 38, 39, 40, 41, 43, 44, 45, 0, 47, 48, 49, 50,
    51 :: nat]"
  have parse: "parseCards [''9h'', ''9d''] = [Code 20, Code 33]"
    "parseCards [''5s'', ''5h'', ''5d'', ''5c'', ''9s''] = [Code 3, Code 16, Code 29, Code 42, Code 7]"
    by (simp_all add: parseCards_def parseCard_def elemAt_def lookup_def RANK_MAP_def SUIT_MAP_def)
  have deck: "withoutKnown [Code 20, Code 33, Code 3, Code 16, Code 29, Code 42, Code 7] fullDeck = ?deck"
    by code_simp
  have shuffle: "shuffleArray ?r ?deck \<lparr>randomCalls = 0, shuffleCalls = 0, trialsRun = 0\<rparr> =
      (?s, \<lparr>randomCalls = 44, shuffleCalls = 1, trialsRun = 0\<rparr>)"
    by code_simp
  have deal: "dealLoop ?s 1 0 ([], 0) = ([[46, 11]], 2)"
    by code_simp
  have none: "slice xs 2 (2 + (5 - length ?board)) = []" for xs :: "nat list"
    by (simp add: slice_def)
  have mine: "evaluateHand [20, 33, 3, 16, 29, 42, 7] = \<lparr>rank = FOUR_OF_A_KIND, keyRanks = [3, 7]\<rparr>"
    by code_simp
  have theirs: "evaluateHand [46, 11, 3, 16, 29, 42, 7] = \<lparr>rank = FOUR_OF_A_KIND, keyRanks = [3, 7, 11]\<rparr>"
    by code_simp
  have differ: "evaluateHand [46, 11, 3, 16, 29, 42, 7] \<noteq> evaluateHand [20, 33, 3, 16, 29, 42, 7]"
    unfolding mine theirs by simp
  have less: "evaluationLess (evaluateHand [20, 33, 3, 16, 29, 42, 7]) (evaluateHand [46, 11, 3, 16, 29, 42, 7])"
    unfolding mine theirs by (simp add: evaluationLess_def)
  have flags: "compareOpponents (evaluateHand (?my @ ?board)) ?board [[46, 11]] (True, False) = (True, True)"
    by code_simp
  have flags': "compareOpponents (evaluateHand [20, 33, 3, 16, 29, 42, 7]) ?board [[46, 11]] (True, False) = (True, True)"
    using flags by simp
  have trial1: "trial ?r ?my ?board ?deck 1
      (\<lparr>wins = 0, ties = 0\<rparr>, \<lparr>randomCalls = 0, shuffleCalls = 0, trialsRun = 0\<rparr>) =
      (\<lparr>wins = 0, ties = 1\<rparr>, \<lparr>randomCalls = 44, shuffleCalls = 1, trialsRun = 1\<rparr>)"
    unfolding trial_unfold Let_def shuffle fst_conv snd_conv deal none append_Nil2 flags
    by (simp add: updateCounters_def)
  have loop: "trialLoop ?r ?my ?board ?deck 1 1 0
      (\<lparr>wins = 0, ties = 0\<rparr>, \<lparr>randomCalls = 0, shuffleCalls = 0, trialsRun = 0\<rparr>) =
      (\<lparr>wins = 0, ties = 1\<rparr>, \<lparr>randomCalls = 44, shuffleCalls = 1, trialsRun = 1\<rparr>)"
    apply (subst trialLoop.simps, simp only: trial1)
    apply (subst trialLoop.simps)
    apply simp
    done
  have agg: "aggregate \<lparr>wins = 0, ties = 1\<rparr> 1 =
     \<lparr>win = Finite 0, tie = Finite 100, lose = Finite 0, resultSimulations = 1\<rparr>"
    by code_simp
  have codes: "codes [Code 20, Code 33] = ?my" "codes [Code 3, Code 16, Code 29, Code 42, Code 7] = ?board"
    by (simp_all add: codes_def)
  have call: "calculatePokerOdds ?r \<lparr>randomCalls = 0, shuffleCalls = 0, trialsRun = 0\<rparr>
       [''9h'', ''9d''] [''5s'', ''5h'', ''5d'', ''5c'', ''9s''] 1 1 =
     Returned \<lparr>win = Finite 0, tie = Finite 100, lose = Finite 0, resultSimulations = 1\<rparr>
       \<lparr>randomCalls = 44, shuffleCalls = 1, trialsRun = 1\<rparr>"
    unfolding calculatePokerOdds_def Let_def parse append.simps deck codes loop
    using agg by simp
  show ?thesis
    using mine theirs differ less flags' trial1 [folded deck] call by (intro conjI)
qed

subsection \<open>Validation\<close>

text \<open>
  C9. A call with a number of hole cards other than 2, with more than 5 community cards,
  or with an opponent count outside [1,8] throws during validation, before any random
  sampling: the machine is the one the call started with, so \<^verbatim>\<open>Math.random\<close> and
  \<^verbatim>\<open>shuffleArray\<close> were not called and no trial ran; the counters do not exist yet.
\<close>

theorem validation_before_sampling:
  assumes "length myCards \<noteq> 2 \<or> length communityCards > 5 \<or> opponentCount < 1 \<or> opponentCount > 8"
  shows "calculatePokerOdds random m myCards communityCards opponentCount simulations =
           Thrown (if length myCards \<noteq> 2 then HoleCardCount
                   else if length communityCards > 5 then CommunityCardCount
                   else OpponentCount) m"
  using assms by (auto simp: calculatePokerOdds_def Let_def length_parseCards)

theorem validation_before_sampling_witness:
  "calculatePokerOdds (\<lambda>k. k) \<lparr>randomCalls = 0, shuffleCalls = 0, trialsRun = 0\<rparr> [''As'', ''Kd'', ''Qh''] [] 1 5000 = Thrown HoleCardCount \<lparr>randomCalls = 0, shuffleCalls = 0, trialsRun = 0\<rparr> \<and>
   calculatePokerOdds (\<lambda>k. k) \<lparr>randomCalls = 0, shuffleCalls = 0, trialsRun = 0\<rparr> [''As'', ''Kd'']
       [''2s'', ''3s'', ''4s'', ''5s'', ''6s'', ''7s''] 1 5000
     = Thrown CommunityCardCount \<lparr>randomCalls = 0, shuffleCalls = 0, trialsRun = 0\<rparr> \<and>
   calculatePokerOdds (\<lambda>k. k) \<lparr>randomCalls = 0, shuffleCalls = 0, trialsRun = 0\<rparr> [''As'', ''Kd''] [] 9 5000 = Thrown OpponentCount \<lparr>randomCalls = 0, shuffleCalls = 0, trialsRun = 0\<rparr> \<and>
   calculatePokerOdds (\<lambda>k. k) \<lparr>randomCalls = 0, shuffleCalls = 0, trialsRun = 0\<rparr> [''As'', ''Kd''] [] 0 5000 = Thrown OpponentCount \<lparr>randomCalls = 0, shuffleCalls = 0, trialsRun = 0\<rparr>"
  using validation_before_sampling [of "[''As'', ''Kd'', ''Qh'']" "[]" 1 "\<lambda>k. k" "\<lparr>randomCalls = 0, shuffleCalls = 0, trialsRun = 0\<rparr>" 5000]
        validation_before_sampling [of "[''As'', ''Kd'']"
          "[''2s'', ''3s'', ''4s'', ''5s'', ''6s'', ''7s'']" 1 "\<lambda>k. k" "\<lparr>randomCalls = 0, shuffleCalls = 0, trialsRun = 0\<rparr>" 5000]
        validation_before_sampling [of "[''As'', ''Kd'']" "[]" 9 "\<lambda>k. k" "\<lparr>randomCalls = 0, shuffleCalls = 0, trialsRun = 0\<rparr>" 5000]
        validation_before_sampling [of "[''As'', ''Kd'']" "[]" 0 "\<lambda>k. k" "\<lparr>randomCalls = 0, shuffleCalls = 0, trialsRun = 0\<rparr>" 5000]
  by simp

lemma trialLoop_none:
  "simulations \<le> 0 \<Longrightarrow> trialLoop random my comm deck opp simulations 0 state = state"
  by (subst trialLoop.simps) simp

lemma binary64_100: "binary64 100 = Finite 100"
  by code_simp

lemma binary64_0: "binary64 0 = Finite 0"
  by (simp add: binary64_def)

lemma aggregate_zero_simulations:
  "aggregate \<lparr>wins = 0, ties = 0\<rparr> 0 = \<lparr>win = NaN, tie = NaN, lose = NaN, resultSimulations = 0\<rparr>"
  by (simp add: aggregate_def jsDivide_def)

lemma hundredths_100: "hundredths 100 = 10000"
  by code_simp

lemma hundredths_0: "hundredths 0 = 0"
  by code_simp

lemma toFixed2_0: "toFixed2 (Finite 0) = Finite 0"
  by (simp add: hundredths_0 binary64_0)

lemma toFixed2_100: "toFixed2 (Finite 100) = Finite 100"
  by (simp add: hundredths_100 binary64_100)

lemma aggregate_negative_simulations:
  "simulations < 0 \<Longrightarrow>
   aggregate \<lparr>wins = 0, ties = 0\<rparr> simulations =
     \<lparr>win = Finite 0, tie = Finite 0, lose = Finite 100, resultSimulations = simulations\<rparr>"
  by (simp add: aggregate_def Let_def jsDivide_def binary64_0 binary64_100 toFixed2_0 toFixed2_100
      del: toFixed2.simps)

text \<open>
  C10, as amended. \<^verbatim>\<open>calculatePokerOdds\<close> does not validate \<^verbatim>\<open>simulations\<close>: for a
  non-positive value it does not throw and the body of the trial loop never runs (the
  machine is unchanged). For \<^verbatim>\<open>simulations = 0\<close> the fields win, tie and lose are
  \<^verbatim>\<open>NaN\<close>, from 0 / 0; for a negative value nothing is divided by zero, and they are
  0, 0 and 100.
\<close>

theorem no_validation_of_simulations:
  assumes "length myCards = 2" "length communityCards \<le> 5" "1 \<le> opponentCount" "opponentCount \<le> 8"
    and "simulations \<le> 0"
  shows "calculatePokerOdds random m myCards communityCards opponentCount simulations =
           Returned
             (if simulations = 0
              then \<lparr>win = NaN, tie = NaN, lose = NaN, resultSimulations = 0\<rparr>
              else \<lparr>win = Finite 0, tie = Finite 0, lose = Finite 100,
                    resultSimulations = simulations\<rparr>) m"
  using assms
  by (auto simp: calculatePokerOdds_def Let_def length_parseCards trialLoop_none
      aggregate_zero_simulations aggregate_negative_simulations)

theorem no_validation_of_simulations_witness:
  "calculatePokerOdds (\<lambda>k. k) \<lparr>randomCalls = 0, shuffleCalls = 0, trialsRun = 0\<rparr> [''As'', ''Kd''] [] 1 0 =
     Returned \<lparr>win = NaN, tie = NaN, lose = NaN, resultSimulations = 0\<rparr> \<lparr>randomCalls = 0, shuffleCalls = 0, trialsRun = 0\<rparr> \<and>
   calculatePokerOdds (\<lambda>k. k) \<lparr>randomCalls = 0, shuffleCalls = 0, trialsRun = 0\<rparr> [''As'', ''Kd''] [''Ah'', ''Kh'', ''Qh''] 8 (- 5) =
     Returned \<lparr>win = Finite 0, tie = Finite 0, lose = Finite 100, resultSimulations = - 5\<rparr> \<lparr>randomCalls = 0, shuffleCalls = 0, trialsRun = 0\<rparr>"
  using no_validation_of_simulations [of "[''As'', ''Kd'']" "[]" 1 0 "\<lambda>k. k" "\<lparr>randomCalls = 0, shuffleCalls = 0, trialsRun = 0\<rparr>"]
        no_validation_of_simulations [of "[''As'', ''Kd'']" "[''Ah'', ''Kh'', ''Qh'']" 8 "- 5" "\<lambda>k. k" "\<lparr>randomCalls = 0, shuffleCalls = 0, trialsRun = 0\<rparr>"]
  by simp

text \<open>
  C10 as stated fails for a negative value: with \<^verbatim>\<open>simulations = -1\<close> the call returns
  win 0, tie 0 and lose 100, none of them \<^verbatim>\<open>NaN\<close>.
\<close>

theorem negative_simulations_not_NaN:
  "calculatePokerOdds (\<lambda>k. k) \<lparr>randomCalls = 0, shuffleCalls = 0, trialsRun = 0\<rparr> [''As'', ''Kd''] [] 1 (- 1) =
     Returned \<lparr>win = Finite 0, tie = Finite 0, lose = Finite 100, resultSimulations = - 1\<rparr> \<lparr>randomCalls = 0, shuffleCalls = 0, trialsRun = 0\<rparr> \<and>
   Finite 0 \<noteq> NaN \<and> Finite 100 \<noteq> NaN"
  by (simp add: calculatePokerOdds_def Let_def length_parseCards trialLoop_none
      aggregate_negative_simulations)

end
